theory Spec2Isabelle
  imports Main "HOL-Library.Word" "HOL-Library.Char_ord" "HOL-Library.List_Lexorder"
    "HOL-Library.Code_Target_Numeral"
begin

section \<open>Library functions the audit-log processor calls\<close>

text \<open>
  The log processor (\<^verbatim>\<open>src/audit/log_processor.go\<close>) is written against Go's standard
  library. The functions of \<^verbatim>\<open>path\<close>, \<^verbatim>\<open>strings\<close>, \<^verbatim>\<open>strconv\<close> and \<^verbatim>\<open>time\<close> it calls are
  modelled here from their documented behaviour; strings are byte lists.
\<close>

subsection \<open>Package \<^verbatim>\<open>path\<close>\<close>

text \<open>
  \<^verbatim>\<open>path.Clean\<close> works on the slash-separated elements of a path: empty elements and
  \<^verbatim>\<open>.\<close> are dropped, \<^verbatim>\<open>..\<close> removes the element before it (it is dropped at the root
  and kept at the start of a relative path), and the result is \<^verbatim>\<open>.\<close> when nothing is left
  of a relative path. The stack of elements kept so far has its newest element first.
\<close>

fun split_slash :: "string \<Rightarrow> string list" where
  "split_slash [] = [[]]"
| "split_slash (c # cs) =
     (if c = CHR ''/'' then [] # split_slash cs
      else (case split_slash cs of [] \<Rightarrow> [[c]] | w # ws \<Rightarrow> (c # w) # ws))"

fun join_slash :: "string list \<Rightarrow> string" where
  "join_slash [] = []"
| "join_slash [x] = x"
| "join_slash (x # y # ys) = x @ CHR ''/'' # join_slash (y # ys)"

definition clean_elem :: "bool \<Rightarrow> string list \<Rightarrow> string \<Rightarrow> string list" where
  "clean_elem rooted st e =
     (if e = [] \<or> e = ''.'' then st
      else if e = ''..'' then
        (case st of
           [] \<Rightarrow> (if rooted then [] else [''..''])
         | t # ts \<Rightarrow> (if t = ''..'' then ''..'' # st else ts))
      else e # st)"

definition clean_stack :: "bool \<Rightarrow> string \<Rightarrow> string list" where
  "clean_stack rooted p = foldl (clean_elem rooted) [] (split_slash p)"

definition render_path :: "bool \<Rightarrow> string list \<Rightarrow> string" where
  "render_path rooted st =
     (if rooted then CHR ''/'' # join_slash (rev st)
      else if st = [] then ''.'' else join_slash (rev st))"

definition rooted_path :: "string \<Rightarrow> bool" where
  "rooted_path p = (case p of [] \<Rightarrow> False | c # _ \<Rightarrow> c = CHR ''/'')"

definition path_Clean :: "string \<Rightarrow> string" where
  "path_Clean p =
     (if p = [] then ''.''
      else render_path (rooted_path p) (clean_stack (rooted_path p) p))"

text \<open>
  \<^verbatim>\<open>path.Join\<close> of two elements: empty elements are ignored, the others are joined by a
  slash and cleaned; the result is empty only when every element is.
\<close>

definition path_Join :: "string \<Rightarrow> string \<Rightarrow> string" where
  "path_Join a b =
     (if a = [] \<and> b = [] then []
      else if a = [] then path_Clean b
      else if b = [] then path_Clean a
      else path_Clean (a @ CHR ''/'' # b))"

text \<open>
  \<^verbatim>\<open>path.Base\<close>: the last element of the path, after trailing slashes are removed;
  \<^verbatim>\<open>.\<close> for the empty path and \<^verbatim>\<open>/\<close> for a path of slashes only.
\<close>

definition path_Base :: "string \<Rightarrow> string" where
  "path_Base p =
     (if p = [] then ''.''
      else (let r = rev (takeWhile (\<lambda>c. c \<noteq> CHR ''/'')
                          (dropWhile (\<lambda>c. c = CHR ''/'') (rev p)))
            in if r = [] then ''/'' else r))"

text \<open>\<^verbatim>\<open>path.Dir\<close>: everything up to the last slash, cleaned.\<close>

definition path_Dir :: "string \<Rightarrow> string" where
  "path_Dir p = path_Clean (rev (dropWhile (\<lambda>c. c \<noteq> CHR ''/'') (rev p)))"

subsection \<open>Package \<^verbatim>\<open>strings\<close>\<close>

definition strings_HasPrefix :: "string \<Rightarrow> string \<Rightarrow> bool" where
  "strings_HasPrefix s pre = (take (length pre) s = pre)"

definition strings_TrimPrefix :: "string \<Rightarrow> string \<Rightarrow> string" where
  "strings_TrimPrefix s pre = (if strings_HasPrefix s pre then drop (length pre) s else s)"

subsection \<open>Errors\<close>

text \<open>
  Go errors as values. \<open>New\<close> is \<^verbatim>\<open>errors.New\<close>, \<open>Errorf\<close> is \<^verbatim>\<open>fmt.Errorf\<close> with a fixed
  prefix followed by the wrapped error (\<^verbatim>\<open>%w\<close>), \<open>ErrSyntax\<close> and \<open>ErrRange\<close> are the two
  failures of \<^verbatim>\<open>strconv\<close> (with the text that was parsed), \<open>ErrTooLong\<close> is the one of
  \<^verbatim>\<open>bufio.Scanner\<close>, and \<open>PathError\<close> is a failure of the operating system: the
  operation, the path and the reason. The last two are the errors of the Prometheus client
  for a list of label values: one that has not as many values as the counter has labels
  (the number expected and the values), and one with a value that is not valid UTF-8 (the
  value).
\<close>

datatype error =
    New string
  | Errorf string error
  | ErrSyntax string
  | ErrRange string
  | ErrTooLong
  | PathError string string string
  | InconsistentCardinality nat "string list"
  | InvalidLabelValue string

subsection \<open>Package \<^verbatim>\<open>strconv\<close>\<close>

definition is_digit :: "char \<Rightarrow> bool" where
  "is_digit c = (48 \<le> (of_char c :: nat) \<and> (of_char c :: nat) \<le> 57)"

definition digit_val :: "char \<Rightarrow> nat" where
  "digit_val c = of_char c - 48"

definition digit_char :: "nat \<Rightarrow> char" where
  "digit_char d = ''0123456789'' ! d"

fun digits_of :: "nat \<Rightarrow> string" where
  "digits_of n = (if n < 10 then [digit_char n] else digits_of (n div 10) @ [digit_char (n mod 10)])"

declare digits_of.simps [simp del]

text \<open>\<^verbatim>\<open>strconv.FormatInt(i, 10)\<close>, also \<^verbatim>\<open>strconv.Itoa\<close> and the verb \<^verbatim>\<open>%d\<close>.\<close>

definition strconv_FormatInt :: "int \<Rightarrow> string" where
  "strconv_FormatInt i = (if i < 0 then CHR ''-'' # digits_of (nat (- i)) else digits_of (nat i))"

text \<open>
  \<^verbatim>\<open>strconv.ParseUint(s, 10, 64)\<close> reads the digits from the left and stops at the first
  byte that is not a digit (a syntax error) or at the first overflow of 64 bits (a range
  error). \<open>s0\<close> is the whole text, for the error.
\<close>

fun parse_digits :: "string \<Rightarrow> nat \<Rightarrow> string \<Rightarrow> error + nat" where
  "parse_digits s0 n [] = Inr n"
| "parse_digits s0 n (c # cs) =
     (if \<not> is_digit c then Inl (ErrSyntax s0)
      else if n * 10 + digit_val c \<ge> 2 ^ 64 then Inl (ErrRange s0)
      else parse_digits s0 (n * 10 + digit_val c) cs)"

definition strconv_ParseUint :: "string \<Rightarrow> string \<Rightarrow> error + nat" where
  "strconv_ParseUint s0 s = (if s = [] then Inl (ErrSyntax s0) else parse_digits s0 0 s)"

text \<open>
  \<^verbatim>\<open>strconv.ParseInt(s, 10, 64)\<close>: an optional sign, then \<^verbatim>\<open>ParseUint\<close>, then the check
  against the 64-bit signed range.
\<close>

definition strconv_ParseInt :: "string \<Rightarrow> error + int" where
  "strconv_ParseInt s =
     (case s of
        [] \<Rightarrow> Inl (ErrSyntax s)
      | c # cs \<Rightarrow>
          (let neg = (c = CHR ''-'');
               body = (if c = CHR ''+'' \<or> c = CHR ''-'' then cs else s)
           in case strconv_ParseUint s body of
                Inl err \<Rightarrow> Inl err
              | Inr un \<Rightarrow>
                  if \<not> neg \<and> un \<ge> 2 ^ 63 then Inl (ErrRange s)
                  else if neg \<and> un > 2 ^ 63 then Inl (ErrRange s)
                  else Inr (if neg then - int un else int un)))"

subsection \<open>Package \<^verbatim>\<open>unicode/utf8\<close>\<close>

text \<open>
  \<^verbatim>\<open>utf8.ValidString\<close>: the bytes are a sequence of well-formed encodings. A byte below
  \<open>0x80\<close> stands alone. Any other first byte gives the length of the encoding and the
  range of the second byte (\<open>utf8_first\<close>, the table \<^verbatim>\<open>first\<close> with \<^verbatim>\<open>acceptRanges\<close>), and
  the bytes after the second are from \<open>0x80\<close> to \<open>0xBF\<close>.
\<close>

definition utf8_first :: "nat \<Rightarrow> (nat \<times> nat \<times> nat) option" where
  "utf8_first b =
     (if 0xC2 \<le> b \<and> b \<le> 0xDF then Some (2, 0x80, 0xBF)
      else if b = 0xE0 then Some (3, 0xA0, 0xBF)
      else if b = 0xED then Some (3, 0x80, 0x9F)
      else if 0xE1 \<le> b \<and> b \<le> 0xEF then Some (3, 0x80, 0xBF)
      else if b = 0xF0 then Some (4, 0x90, 0xBF)
      else if 0xF1 \<le> b \<and> b \<le> 0xF3 then Some (4, 0x80, 0xBF)
      else if b = 0xF4 then Some (4, 0x80, 0x8F)
      else None)"

definition continuation :: "char \<Rightarrow> bool" where
  "continuation c = (0x80 \<le> (of_char c :: nat) \<and> (of_char c :: nat) \<le> 0xBF)"

fun utf8_ValidString :: "string \<Rightarrow> bool" where
  "utf8_ValidString [] = True"
| "utf8_ValidString (c # cs) =
     (if (of_char c :: nat) < 0x80 then utf8_ValidString cs
      else (case utf8_first (of_char c) of
              None \<Rightarrow> False
            | Some (sz, lo, hi) \<Rightarrow>
                (case cs of
                   [] \<Rightarrow> False
                 | c1 # cs1 \<Rightarrow>
                     lo \<le> (of_char c1 :: nat) \<and> (of_char c1 :: nat) \<le> hi \<and>
                     sz - 2 \<le> length cs1 \<and> list_all continuation (take (sz - 2) cs1) \<and>
                     utf8_ValidString (drop (sz - 2) cs1))))"

subsection \<open>Package \<^verbatim>\<open>time\<close>\<close>

text \<open>
  A \<^verbatim>\<open>time.Time\<close> is an instant: whole seconds and the nanoseconds within the second. The
  record keeps the seconds that \<^verbatim>\<open>Unix()\<close> returns, an \<^verbatim>\<open>int64\<close>. Go itself keeps the seconds
  since January 1 of year 1, also in an \<^verbatim>\<open>int64\<close>: \<^verbatim>\<open>time.Unix(s, 0)\<close> stores
  \<open>s + 62135596800\<close>, which wraps around for \<open>s\<close> above \<open>9223371974719179007\<close>, and
  \<^verbatim>\<open>Unix()\<close> subtracts the same number, which wraps back. \<open>time_sec\<close> is that internal
  count, the one \<^verbatim>\<open>Sub\<close> and \<^verbatim>\<open>Before\<close> compare. A \<^verbatim>\<open>time.Duration\<close> is a signed 64-bit
  count of nanoseconds, read here as an integer. \<^verbatim>\<open>Sub\<close> follows its documentation: the
  difference of the two instants, or the largest (smallest) duration when the difference
  does not fit.
\<close>

record Time =
  unix_sec :: "64 word"
  nanos :: nat

definition time_Unix :: "Time \<Rightarrow> int" where
  "time_Unix t = sint (unix_sec t)"

definition time_of_Unix :: "int \<Rightarrow> Time" where
  "time_of_Unix s = \<lparr>unix_sec = word_of_int s, nanos = 0\<rparr>"

definition unixToInternal :: "64 word" where
  "unixToInternal = 62135596800"

definition time_sec :: "Time \<Rightarrow> int" where
  "time_sec t = sint (unix_sec t + unixToInternal)"

definition time_Before :: "Time \<Rightarrow> Time \<Rightarrow> bool" where
  "time_Before t u = (time_sec t < time_sec u \<or> time_sec t = time_sec u \<and> nanos t < nanos u)"

definition maxDuration :: int where
  "maxDuration = 2 ^ 63 - 1"

definition minDuration :: int where
  "minDuration = - (2 ^ 63)"

definition exact_diff :: "Time \<Rightarrow> Time \<Rightarrow> int" where
  "exact_diff t u = (time_sec t - time_sec u) * 1000000000 + (int (nanos t) - int (nanos u))"

definition time_Sub :: "Time \<Rightarrow> Time \<Rightarrow> int" where
  "time_Sub t u =
     (let d = exact_diff t u
      in if d > maxDuration then maxDuration else if d < minDuration then minDuration else d)"

section \<open>The world around the processor\<close>

subsection \<open>Audit records (\<^verbatim>\<open>src/audit/log.go\<close>)\<close>

record MessageData =
  md_File :: string
  md_Line :: int
  md_ID :: int
  md_Rev :: string
  md_Msg :: string
  md_Data :: string
  md_Severity :: int
  md_Ver :: string
  md_Maturity :: int
  md_Accuracy :: int
  md_Tags :: "string list"
  md_Raw :: string

record Message =
  msg_Message :: string
  msg_Data :: MessageData

record TransactionRequest =
  req_Method :: string
  req_Protocol :: string
  req_URI :: string
  req_HTTPVersion :: string
  req_Headers :: "(string \<times> string list) list"
  req_Body :: string

record TransactionResponse =
  resp_Protocol :: string
  resp_Status :: int
  resp_Headers :: "(string \<times> string list) list"
  resp_Body :: string

record Transaction =
  tx_Timestamp :: string
  tx_UnixTimestamp :: int
  tx_ID :: string
  tx_ClientIP :: string
  tx_ClientPort :: int
  tx_HostIP :: string
  tx_HostPort :: int
  tx_ServerID :: string
  tx_Request :: "TransactionRequest option"
  tx_Response :: "TransactionResponse option"

record Log =
  log_Transaction :: Transaction
  log_Messages :: "Message list"

subsection \<open>What the processor emits\<close>

text \<open>
  What a function logs and counts is returned as a list of events, in the order of the
  calls. An \<open>Slog\<close> event is one call of \<^verbatim>\<open>slog.Logger\<close> (level, message, attributes), a
  \<open>CounterInc\<close> event is one increment of the counter of that name for these label values.
  A duration attribute holds the duration whose text is logged.
\<close>

datatype level = LevelDebug | LevelInfo | LevelWarn | LevelError

datatype attr = Str string | Num int | Strs "string list" | Err error | Dur int

datatype event =
    Slog level string "(string \<times> attr) list"
  | CounterInc string "string list"

record URL =
  url_Host :: string
  url_Path :: string

subsection \<open>Files\<close>

text \<open>
  The file system is a finite store from paths, as the code writes them, to nodes. Only a
  regular file has content; a node that is neither a regular file nor a directory (a
  symbolic link, a device, a socket) can be listed but not opened in this model.
\<close>

datatype node = Regular string | Directory | Irregular

type_synonym filesystem = "(string \<times> node) list"

definition fs_lookup :: "filesystem \<Rightarrow> string \<Rightarrow> node option" where
  "fs_lookup fs p = map_of fs p"

definition fs_delete :: "string \<Rightarrow> filesystem \<Rightarrow> filesystem" where
  "fs_delete p fs = filter (\<lambda>(q, n). q \<noteq> p) fs"

definition fs_store :: "string \<Rightarrow> node \<Rightarrow> filesystem \<Rightarrow> filesystem" where
  "fs_store p n fs = (p, n) # fs_delete p fs"

text \<open>
  The environment: the failures the operating system injects (no permission, no space, a
  failing disk), as functions of the path, and the two decoders of the standard library
  whose results are taken as given, \<^verbatim>\<open>json.Unmarshal\<close> into a \<^verbatim>\<open>Log\<close> and \<^verbatim>\<open>url.Parse\<close>. A
  copy or read failure comes with the number of bytes that went through before it.
\<close>

record env =
  open_fault :: "string \<Rightarrow> error option"
  create_fault :: "string \<Rightarrow> error option"
  copy_fault :: "string \<Rightarrow> (nat \<times> error) option"
  truncate_fault :: "string \<Rightarrow> error option"
  remove_fault :: "string \<Rightarrow> error option"
  readdir_fault :: "string \<Rightarrow> error option"
  read_fault :: "string \<Rightarrow> (nat \<times> error) option"
  json_Unmarshal :: "string \<Rightarrow> error + Log"
  url_Parse :: "string \<Rightarrow> error + URL"

text \<open>An open file is named by its path: reading it sees the content the file has then.\<close>

definition os_Open :: "env \<Rightarrow> filesystem \<Rightarrow> string \<Rightarrow> error + string" where
  "os_Open e fs name =
     (case open_fault e name of
        Some err \<Rightarrow> Inl err
      | None \<Rightarrow>
          (case fs_lookup fs name of
             None \<Rightarrow> Inl (PathError ''open'' name ''no such file or directory'')
           | Some Irregular \<Rightarrow> Inl (PathError ''open'' name ''not supported'')
           | Some n \<Rightarrow> Inr name))"

text \<open>\<^verbatim>\<open>os.Create\<close>: the file is created if it does not exist and truncated if it does.\<close>

definition os_Create :: "env \<Rightarrow> filesystem \<Rightarrow> string \<Rightarrow> (error + string) \<times> filesystem" where
  "os_Create e fs name =
     (case create_fault e name of
        Some err \<Rightarrow> (Inl err, fs)
      | None \<Rightarrow>
          (case fs_lookup fs name of
             Some Directory \<Rightarrow> (Inl (PathError ''open'' name ''is a directory''), fs)
           | Some Irregular \<Rightarrow> (Inl (PathError ''open'' name ''not supported''), fs)
           | _ \<Rightarrow> (Inr name, fs_store name (Regular []) fs)))"

text \<open>
  \<^verbatim>\<open>io.Copy(dst, src)\<close> on two files just opened: the bytes of \<open>src\<close> are written into
  \<open>dst\<close> from its start. When the copy fails, the bytes written before the failure stay.
\<close>

definition write_at_start :: "string \<Rightarrow> string \<Rightarrow> string" where
  "write_at_start bytes old = bytes @ drop (length bytes) old"

definition io_Copy :: "env \<Rightarrow> filesystem \<Rightarrow> string \<Rightarrow> string \<Rightarrow> (error + nat) \<times> filesystem" where
  "io_Copy e fs dst src =
     (case (fs_lookup fs src, fs_lookup fs dst) of
        (Some (Regular bytes), Some (Regular old)) \<Rightarrow>
          (case copy_fault e dst of
             Some (n, err) \<Rightarrow>
               (Inl err, fs_store dst (Regular (write_at_start (take n bytes) old)) fs)
           | None \<Rightarrow>
               (Inr (length bytes), fs_store dst (Regular (write_at_start bytes old)) fs))
      | (Some (Regular bytes), _) \<Rightarrow> (Inl (PathError ''write'' dst ''bad file descriptor''), fs)
      | _ \<Rightarrow> (Inl (PathError ''read'' src ''is a directory''), fs))"

definition os_Truncate :: "env \<Rightarrow> filesystem \<Rightarrow> string \<Rightarrow> nat \<Rightarrow> error option \<times> filesystem" where
  "os_Truncate e fs name sz =
     (case truncate_fault e name of
        Some err \<Rightarrow> (Some err, fs)
      | None \<Rightarrow>
          (case fs_lookup fs name of
             Some (Regular bytes) \<Rightarrow>
               (None, fs_store name
                        (Regular (take sz bytes @ replicate (sz - length bytes) (CHR 0x00))) fs)
           | Some Directory \<Rightarrow> (Some (PathError ''truncate'' name ''is a directory''), fs)
           | Some Irregular \<Rightarrow> (Some (PathError ''truncate'' name ''invalid argument''), fs)
           | None \<Rightarrow> (Some (PathError ''truncate'' name ''no such file or directory''), fs)))"

text \<open>
  A directory entry: its name and its type. The entries of a directory are the stored
  paths reached from it by one plain name, that is by \<^verbatim>\<open>path.Join(dir, name)\<close>;
  \<^verbatim>\<open>os.ReadDir\<close> returns them sorted by name.
\<close>

datatype file_mode = ModeRegular | ModeDir | ModeIrregular

record DirEntry =
  de_Name :: string
  de_Type :: file_mode

definition plain_name :: "string \<Rightarrow> bool" where
  "plain_name n = (n \<noteq> [] \<and> n \<noteq> ''.'' \<and> n \<noteq> ''..'' \<and> CHR ''/'' \<notin> set n)"

definition in_dir :: "string \<Rightarrow> string \<Rightarrow> bool" where
  "in_dir dir q = (plain_name (path_Base q) \<and> path_Join dir (path_Base q) = q)"

definition mode_of :: "node \<Rightarrow> file_mode" where
  "mode_of n = (case n of Regular bytes \<Rightarrow> ModeRegular | Directory \<Rightarrow> ModeDir | Irregular \<Rightarrow> ModeIrregular)"

definition dir_entries :: "filesystem \<Rightarrow> string \<Rightarrow> DirEntry list" where
  "dir_entries fs dir =
     sort_key de_Name
       (concat (map (\<lambda>q. case fs_lookup fs q of
                           None \<Rightarrow> []
                         | Some n \<Rightarrow> if in_dir dir q
                                     then [\<lparr>de_Name = path_Base q, de_Type = mode_of n\<rparr>] else [])
                   (remdups (map fst fs))))"

definition os_ReadDir :: "env \<Rightarrow> filesystem \<Rightarrow> string \<Rightarrow> error + DirEntry list" where
  "os_ReadDir e fs name =
     (case readdir_fault e name of
        Some err \<Rightarrow> Inl err
      | None \<Rightarrow>
          (case fs_lookup fs name of
             Some Directory \<Rightarrow> Inr (dir_entries fs name)
           | Some n \<Rightarrow> Inl (PathError ''open'' name ''not a directory'')
           | None \<Rightarrow> Inl (PathError ''open'' name ''no such file or directory'')))"

text \<open>\<^verbatim>\<open>os.Remove\<close> removes a file or an empty directory.\<close>

definition os_Remove :: "env \<Rightarrow> filesystem \<Rightarrow> string \<Rightarrow> error option \<times> filesystem" where
  "os_Remove e fs name =
     (case remove_fault e name of
        Some err \<Rightarrow> (Some err, fs)
      | None \<Rightarrow>
          (case fs_lookup fs name of
             None \<Rightarrow> (Some (PathError ''remove'' name ''no such file or directory''), fs)
           | Some Directory \<Rightarrow>
               if dir_entries fs name = [] then (None, fs_delete name fs)
               else (Some (PathError ''remove'' name ''directory not empty''), fs)
           | Some n \<Rightarrow> (None, fs_delete name fs)))"

subsection \<open>\<^verbatim>\<open>bufio.Scanner\<close> with the default split function\<close>






section \<open>The log processor (\<^verbatim>\<open>src/audit/log_processor.go\<close>)\<close>


datatype outcome = Returns "error option" | Panics error

type_synonym 'h panicking_handler = "Log \<Rightarrow> 'h \<Rightarrow> outcome \<times> event list \<times> 'h"

text \<open>
  The fields of \<^verbatim>\<open>LogProcessor\<close>. The handler is of type \<open>'f\<close>: the default handler, which
  \<^verbatim>\<open>NewLogProcessor\<close> installs, or the one a caller has put in its place. Durations are in
  nanoseconds. The logger is the event list every function returns. The channels belong to
  the two jobs and to \<^verbatim>\<open>Stop\<close>; the lock is held by \<^verbatim>\<open>rotateLogs\<close> from its first to its
  last step, and a function of this model runs from its first to its last step with
  nothing in between.
\<close>

record 'f LogProcessor =
  auditLogDir :: string
  auditLogFile :: string
  logHandler :: 'f
  ProcessingJobInterval :: int
  ExpirationJobInterval :: int
  LogExpiration :: int

record AuditLogProcessorOptions =
  AuditLogPath :: string
  opt_ProcessingJobInterval :: int
  opt_ExpirationJobInterval :: int
  opt_LogExpiration :: int

subsection \<open>Metrics (\<^verbatim>\<open>src/audit/metrics.go\<close>)\<close>

text \<open>
  A counter vector is declared with its name and the names of its labels.
  \<^verbatim>\<open>WithLabelValues(lvs...).Inc()\<close> increments the counter of these label values;
  \<^verbatim>\<open>WithLabelValues\<close> panics with the error of \<^verbatim>\<open>GetMetricWithLabelValues\<close> when there are
  not as many values as labels, or when a value, the first such, is not valid UTF-8. The
  result is the value of the panic, if any, and the events.
\<close>

record CounterVec =
  cv_Name :: string
  cv_Labels :: "string list"

definition metricAuditLogTransactionsCount :: CounterVec where
  "metricAuditLogTransactionsCount =
     \<lparr>cv_Name = ''audit_log_transactions'',
      cv_Labels = [''status_code'', ''method'', ''host'', ''path'']\<rparr>"

definition metricAuditLogRuleViolations :: CounterVec where
  "metricAuditLogRuleViolations =
     \<lparr>cv_Name = ''audit_log_rule_violations'',
      cv_Labels = [''rule_id'', ''method'', ''host'', ''path'']\<rparr>"

definition WithLabelValues_Inc :: "CounterVec \<Rightarrow> string list \<Rightarrow> error option \<times> event list" where
  "WithLabelValues_Inc v lvs =
     (if length lvs \<noteq> length (cv_Labels v)
      then (Some (InconsistentCardinality (length (cv_Labels v)) lvs), [])
      else (case find (\<lambda>val. \<not> utf8_ValidString val) lvs of
              Some val \<Rightarrow> (Some (InvalidLabelValue val), [])
            | None \<Rightarrow> (None, [CounterInc (cv_Name v) lvs])))"

definition request_labels :: "env \<Rightarrow> TransactionRequest option \<Rightarrow> string \<times> string \<times> string" where
  "request_labels e request =
     (case request of
        None \<Rightarrow> (''unknown'', ''unknown'', ''unknown'')
      | Some r \<Rightarrow>
          (case url_Parse e (req_URI r) of
             Inr uri \<Rightarrow> (req_Method r, url_Host uri, url_Path uri)
           | Inl err \<Rightarrow> (req_Method r, ''unknown'', ''unknown'')))"

definition sendTransactionMetrics :: "env \<Rightarrow> Log \<Rightarrow> error option \<times> event list" where
  "sendTransactionMetrics e log =
     (let request = tx_Request (log_Transaction log);
          response = tx_Response (log_Transaction log);
          statusCode = (case response of
                          None \<Rightarrow> ''unknown''
                        | Some r \<Rightarrow> strconv_FormatInt (resp_Status r))
      in case request_labels e request of
           (method, host, path) \<Rightarrow>
             WithLabelValues_Inc metricAuditLogTransactionsCount [statusCode, method, host, path])"

definition rule_id :: "Message \<Rightarrow> string" where
  "rule_id msg = md_File (msg_Data msg) @ ''-'' @ strconv_FormatInt (md_ID (msg_Data msg))"

text \<open>The loop of \<^verbatim>\<open>sendRuleViolationMetrics\<close> over the messages: a panic ends it.\<close>

fun count_rule_violations ::
  "string \<Rightarrow> string \<Rightarrow> string \<Rightarrow> Message list \<Rightarrow> error option \<times> event list" where
  "count_rule_violations method host path [] = (None, [])"
| "count_rule_violations method host path (msg # msgs) =
     (let ruleID = rule_id msg
      in case WithLabelValues_Inc metricAuditLogRuleViolations [ruleID, method, host, path] of
           (Some v, evs) \<Rightarrow> (Some v, evs)
         | (None, evs) \<Rightarrow>
             (case count_rule_violations method host path msgs of
                (r, evs') \<Rightarrow> (r, evs @ evs')))"

definition sendRuleViolationMetrics :: "env \<Rightarrow> Log \<Rightarrow> error option \<times> event list" where
  "sendRuleViolationMetrics e log =
     (case request_labels e (tx_Request (log_Transaction log)) of
        (method, host, path) \<Rightarrow> count_rule_violations method host path (log_Messages log))"

subsection \<open>The default handler\<close>

definition defaultLogHandler :: "env \<Rightarrow> 'h panicking_handler" where
  "defaultLogHandler e log st =
     (let dbg = Slog LevelDebug ''Processing log entry''
                  [(''id'', Str (tx_ID (log_Transaction log))),
                   (''messages'', Num (int (length (log_Messages log))))]
      in if length (log_Messages log) = 0 then (Returns None, [dbg], st)
         else
           (let logFields = [(''id'', Str (tx_ID (log_Transaction log))),
                             (''client_ip'', Str (tx_ClientIP (log_Transaction log)))];
                logFields = (case tx_Request (log_Transaction log) of
                               None \<Rightarrow> logFields
                             | Some request \<Rightarrow>
                                 logFields @ [(''method'', Str (req_Method request)),
                                              (''uri'', Str (req_URI request)),
                                              (''protocol'', Str (req_Protocol request))]);
                rules = concat (map (\<lambda>msg. [''rule_id'', rule_id msg,
                                              ''message'', md_Msg (msg_Data msg)])
                                    (log_Messages log));
                logFields = logFields @ [(''rules'', Strs rules)];
                warn = Slog LevelWarn ''Rule violations'' logFields
            in case sendTransactionMetrics e log of
                 (Some v, evs) \<Rightarrow> (Panics v, [dbg, warn] @ evs, st)
               | (None, evs) \<Rightarrow>
                   (case sendRuleViolationMetrics e log of
                      (Some v, evs') \<Rightarrow> (Panics v, [dbg, warn] @ evs @ evs', st)
                    | (None, evs') \<Rightarrow> (Returns None, [dbg, warn] @ evs @ evs', st))))"

definition NewLogProcessor ::
  "env \<Rightarrow> AuditLogProcessorOptions \<Rightarrow> ('h panicking_handler) LogProcessor" where
  "NewLogProcessor e options =
     \<lparr>auditLogDir = path_Dir (AuditLogPath options),
      auditLogFile = path_Base (AuditLogPath options),
      logHandler = defaultLogHandler e,
      ProcessingJobInterval = opt_ProcessingJobInterval options,
      ExpirationJobInterval = opt_ExpirationJobInterval options,
      LogExpiration = opt_LogExpiration options\<rparr>"

subsection \<open>Backup file names\<close>

definition generateNewBackupFilename :: "'h LogProcessor \<Rightarrow> Time \<Rightarrow> string" where
  "generateNewBackupFilename p timestamp =
     (let timestampStr = strconv_FormatInt (time_Unix timestamp)
      in path_Join (auditLogDir p) (auditLogFile p @ ''.'' @ timestampStr))"

definition parseTimestampFromBackupFilename :: "'h LogProcessor \<Rightarrow> string \<Rightarrow> error + Time" where
  "parseTimestampFromBackupFilename p filename =
     (let base = path_Base filename;
          timestampStr = strings_TrimPrefix base (auditLogFile p @ ''.'')
      in case strconv_ParseInt timestampStr of
           Inl err \<Rightarrow> Inl (Errorf ''invalid timestamp in filename: '' err)
         | Inr timestampInt \<Rightarrow> Inr (time_of_Unix timestampInt))"

definition isBackupFile :: "'h LogProcessor \<Rightarrow> string \<Rightarrow> bool" where
  "isBackupFile p filename =
     (let base = path_Base filename
      in if \<not> strings_HasPrefix base (auditLogFile p @ ''.'') then False
         else (case parseTimestampFromBackupFilename p filename of
                 Inl err \<Rightarrow> False
               | Inr t \<Rightarrow> True))"

subsection \<open>Rotation\<close>

text \<open>
  \<^verbatim>\<open>rotateLogs\<close>, with the time \<^verbatim>\<open>time.Now()\<close> returns as an argument. Closing a file
  changes nothing in the store.
\<close>

definition rotateLogs ::
  "'h LogProcessor \<Rightarrow> env \<Rightarrow> Time \<Rightarrow> filesystem \<Rightarrow> (error + string) \<times> filesystem" where
  "rotateLogs p e now fs =
     (let logPath = path_Join (auditLogDir p) (auditLogFile p)
      in case os_Open e fs logPath of
           Inl err \<Rightarrow> (Inl (Errorf ''failed to open audit log: '' err), fs)
         | Inr auditLog \<Rightarrow>
             (let copyName = generateNewBackupFilename p now
              in case os_Create e fs copyName of
                   (Inl err, fs1) \<Rightarrow>
                     (Inl (Errorf ''failed to create copy of audit log: '' err), fs1)
                 | (Inr copyFile, fs1) \<Rightarrow>
                     (case io_Copy e fs1 copyFile auditLog of
                        (Inl err, fs2) \<Rightarrow>
                          (Inl (Errorf ''failed to copy audit log contents: '' err), fs2)
                      | (Inr n, fs2) \<Rightarrow>
                          (case os_Truncate e fs2 logPath 0 of
                             (Some err, fs3) \<Rightarrow>
                               (Inl (Errorf ''failed to truncate audit log: '' err), fs3)
                           | (None, fs3) \<Rightarrow> (Inr copyName, fs3)))))"

subsection \<open>Expiration\<close>

fun expire_entries ::
  "'h LogProcessor \<Rightarrow> env \<Rightarrow> Time \<Rightarrow> DirEntry list \<Rightarrow> filesystem \<Rightarrow> event list \<times> filesystem" where
  "expire_entries p e now [] fs = ([], fs)"
| "expire_entries p e now (file # files) fs =
     (if de_Type file = ModeDir \<or> de_Type file \<noteq> ModeRegular then expire_entries p e now files fs
      else if \<not> isBackupFile p (de_Name file) then expire_entries p e now files fs
      else
        (case parseTimestampFromBackupFilename p (de_Name file) of
           Inl err \<Rightarrow>
             (case expire_entries p e now files fs of
                (evs, fs') \<Rightarrow>
                  (Slog LevelWarn ''Failed to parse timestamp from backup log filename, skipping''
                     [(''file'', Str (de_Name file)), (''error'', Err err)] # evs, fs'))
         | Inr timestamp \<Rightarrow>
             if time_Sub now timestamp > LogExpiration p then
               (let fullPath = path_Join (auditLogDir p) (de_Name file)
                in case os_Remove e fs fullPath of
                     (Some err, fs1) \<Rightarrow>
                       (case expire_entries p e now files fs1 of
                          (evs, fs') \<Rightarrow>
                            (Slog LevelWarn ''Failed to delete expired audit log file''
                               [(''file'', Str fullPath), (''error'', Err err)] # evs, fs'))
                   | (None, fs1) \<Rightarrow>
                       (case expire_entries p e now files fs1 of
                          (evs, fs') \<Rightarrow>
                            (Slog LevelInfo ''Deleted expired audit log file''
                               [(''file'', Str fullPath)] # evs, fs')))
             else expire_entries p e now files fs))"

definition expireBackupLogFiles ::
  "'h LogProcessor \<Rightarrow> env \<Rightarrow> Time \<Rightarrow> filesystem \<Rightarrow> error option \<times> event list \<times> filesystem" where
  "expireBackupLogFiles p e now fs =
     (let start = Slog LevelInfo ''Checking for expired audit log files to delete''
                    [(''expiration'', Dur (LogExpiration p))]
      in case os_ReadDir e fs (auditLogDir p) of
           Inl err \<Rightarrow> (Some (Errorf ''failed to read audit log directory: '' err), [start], fs)
         | Inr files \<Rightarrow>
             (case expire_entries p e now files fs of
                (evs, fs') \<Rightarrow> (None, start # evs, fs')))"

text \<open>
  The expiration job. \<^verbatim>\<open>time.NewTicker\<close> panics when the interval is not positive. The
  loop then waits for the stop signal or the next tick: the schedule lists what arrives,
  in order, and a tick carries the time its sweep reads. A job whose schedule ends is
  still waiting.
\<close>

datatype job_event = Tick Time | StopSignal

datatype job_result = Returned | Waiting | Panicked string

fun expiration_loop ::
  "'h LogProcessor \<Rightarrow> env \<Rightarrow> job_event list \<Rightarrow> filesystem \<Rightarrow> job_result \<times> event list \<times> filesystem" where
  "expiration_loop p e [] fs = (Waiting, [], fs)"
| "expiration_loop p e (StopSignal # schedule) fs = (Returned, [], fs)"
| "expiration_loop p e (Tick now # schedule) fs =
     (case expireBackupLogFiles p e now fs of
        (res, evs, fs1) \<Rightarrow>
          (let failed = (case res of
                           Some err \<Rightarrow> [Slog LevelError ''Failed to expire backup log files''
                                         [(''error'', Err err)]]
                         | None \<Rightarrow> [])
           in case expiration_loop p e schedule fs1 of
                (r, evs', fs') \<Rightarrow> (r, evs @ failed @ evs', fs')))"

definition StartExpirationJob ::
  "'h LogProcessor \<Rightarrow> env \<Rightarrow> job_event list \<Rightarrow> filesystem \<Rightarrow> job_result \<times> event list \<times> filesystem" where
  "StartExpirationJob p e schedule fs =
     (let start = Slog LevelInfo ''Starting audit log expiration job''
                    [(''interval'', Dur (ExpirationJobInterval p)),
                     (''expiration'', Dur (LogExpiration p))]
      in if ExpirationJobInterval p \<le> 0
         then (Panicked ''non-positive interval for NewTicker'', [start], fs)
         else (case expiration_loop p e schedule fs of
                 (r, evs, fs') \<Rightarrow> (r, start # evs, fs')))"

subsection \<open>Processing a backup file\<close>



section \<open>Notions used in the statements\<close>

text \<open>
  An element that \<^verbatim>\<open>path.Clean\<close> keeps on its stack, and a suffix that turns the last
  element of any path into a plain name (it is not empty and has no slash and no final
  dot).
\<close>

definition path_elem :: "string \<Rightarrow> bool" where
  "path_elem e = (e \<noteq> [] \<and> e \<noteq> ''.'' \<and> CHR ''/'' \<notin> set e)"

definition name_suffix :: "string \<Rightarrow> bool" where
  "name_suffix x = (x \<noteq> [] \<and> CHR ''/'' \<notin> set x \<and> last x \<noteq> CHR ''.'')"

text \<open>
  A decimal integer of 64 bits, in words: an optional sign, then at least one digit and
  only digits, with a value from \<open>-2\<^sup>6\<^sup>3\<close> to \<open>2\<^sup>6\<^sup>3 - 1\<close>.
\<close>

definition decimal_value :: "string \<Rightarrow> nat" where
  "decimal_value ds = foldl (\<lambda>a c. a * 10 + digit_val c) 0 ds"

definition is_decimal_int64 :: "string \<Rightarrow> bool" where
  "is_decimal_int64 s =
     (case s of
        [] \<Rightarrow> False
      | c # cs \<Rightarrow>
          (let ds = (if c = CHR ''+'' \<or> c = CHR ''-'' then cs else s)
           in ds \<noteq> [] \<and> list_all is_digit ds \<and>
              (if c = CHR ''-'' then decimal_value ds \<le> 2 ^ 63 else decimal_value ds < 2 ^ 63)))"




text \<open>
  For the expiration sweep: the value of a decimal integer; the suffix of a name that
  starts with the base file name and a dot; a name is expired when that suffix is a
  decimal integer of 64 bits and the time from the instant \<^verbatim>\<open>time.Unix\<close> makes of it to
  now, as \<^verbatim>\<open>Time.Sub\<close> gives it, exceeds the retention; it is stamped before now when the
  exact time from that instant to now is positive. \<open>swept\<close> is the test the loop makes on a
  directory entry.
\<close>

definition decimal_int :: "string \<Rightarrow> int" where
  "decimal_int s =
     (case s of
        [] \<Rightarrow> 0
      | c # cs \<Rightarrow> if c = CHR ''-'' then - int (decimal_value cs)
                 else if c = CHR ''+'' then int (decimal_value cs)
                 else int (decimal_value s))"

definition backup_suffix :: "'h LogProcessor \<Rightarrow> string \<Rightarrow> string option" where
  "backup_suffix p name =
     (if strings_HasPrefix name (auditLogFile p @ ''.'')
      then Some (drop (length (auditLogFile p @ ''.'')) name) else None)"

definition expired :: "'h LogProcessor \<Rightarrow> Time \<Rightarrow> string \<Rightarrow> bool" where
  "expired p now name =
     (case backup_suffix p name of
        None \<Rightarrow> False
      | Some sfx \<Rightarrow> is_decimal_int64 sfx \<and>
                    time_Sub now (time_of_Unix (decimal_int sfx)) > LogExpiration p)"

definition stamped_before :: "'h LogProcessor \<Rightarrow> Time \<Rightarrow> string \<Rightarrow> bool" where
  "stamped_before p now name =
     (case backup_suffix p name of
        None \<Rightarrow> False
      | Some sfx \<Rightarrow> is_decimal_int64 sfx \<and> exact_diff now (time_of_Unix (decimal_int sfx)) > 0)"

definition swept :: "'h LogProcessor \<Rightarrow> Time \<Rightarrow> DirEntry \<Rightarrow> bool" where
  "swept p now file =
     (de_Type file = ModeRegular \<and> isBackupFile p (de_Name file) \<and>
      (case parseTimestampFromBackupFilename p (de_Name file) of
         Inl err \<Rightarrow> False
       | Inr timestamp \<Rightarrow> time_Sub now timestamp > LogExpiration p))"

text \<open>
  For the expiration job: the times of the ticks that arrive before the stop signal, in
  order.
\<close>

definition ticks :: "job_event list \<Rightarrow> Time list" where
  "ticks schedule =
     concat (map (\<lambda>ev. case ev of Tick now \<Rightarrow> [now] | StopSignal \<Rightarrow> [])
                 (takeWhile (\<lambda>ev. ev \<noteq> StopSignal) schedule))"






subsection \<open>A small world for concrete runs\<close>

text \<open>
  An environment without failures whose JSON decoder knows two lines, a processor for
  \<^verbatim>\<open>/var/log/audit.log\<close> with a retention of one minute, and records to process.
\<close>

definition example_log :: "string \<Rightarrow> Message list \<Rightarrow> Log" where
  "example_log ident msgs =
     \<lparr>log_Transaction =
        \<lparr>tx_Timestamp = ''02/Jan/2006:15:04:20 -0700'', tx_UnixTimestamp = 1136239460,
         tx_ID = ident, tx_ClientIP = ''10.0.0.7'', tx_ClientPort = 51234,
         tx_HostIP = ''10.0.0.1'', tx_HostPort = 8080, tx_ServerID = ''waf'',
         tx_Request = Some \<lparr>req_Method = ''GET'', req_Protocol = ''HTTP/1.1'',
                            req_URI = ''/index.php?id=1'', req_HTTPVersion = ''1.1'',
                            req_Headers = [], req_Body = []\<rparr>,
         tx_Response = Some \<lparr>resp_Protocol = ''HTTP/1.1'', resp_Status = 403,
                              resp_Headers = [], resp_Body = []\<rparr>\<rparr>,
      log_Messages = msgs\<rparr>"

definition example_message :: Message where
  "example_message =
     \<lparr>msg_Message = ''SQL Injection Attack'',
      msg_Data = \<lparr>md_File = ''REQUEST-942.conf'', md_Line = 45, md_ID = 942100, md_Rev = [],
                  md_Msg = ''SQL Injection Attack Detected via libinjection'', md_Data = [],
                  md_Severity = 2, md_Ver = ''OWASP_CRS/4.0'', md_Maturity = 0,
                  md_Accuracy = 0, md_Tags = [''attack-sqli''], md_Raw = []\<rparr>\<rparr>"

definition example_env :: env where
  "example_env =
     \<lparr>open_fault = (\<lambda>p. None), create_fault = (\<lambda>p. None), copy_fault = (\<lambda>p. None),
      truncate_fault = (\<lambda>p. None), remove_fault = (\<lambda>p. None), readdir_fault = (\<lambda>p. None),
      read_fault = (\<lambda>p. None),
      json_Unmarshal = (\<lambda>line. if line = ''{A}'' then Inr (example_log ''A'' [example_message])
                                else if line = ''{B}'' then Inr (example_log ''B'' [])
                                else Inl (New ''invalid character'')),
      url_Parse = (\<lambda>uri. Inr \<lparr>url_Host = [], url_Path = takeWhile (\<lambda>c. c \<noteq> CHR ''?'') uri\<rparr>)\<rparr>"

definition example_processor :: "(unit panicking_handler) LogProcessor" where
  "example_processor =
     \<lparr>auditLogDir = ''/var/log'', auditLogFile = ''audit.log'',
      logHandler = defaultLogHandler example_env,
      ProcessingJobInterval = 10000000000, ExpirationJobInterval = 3600000000000,
      LogExpiration = 60000000000\<rparr>"

definition example_bytes :: string where
  "example_bytes = ''{A}'' @ [CHR 0x0A] @ ''{B}'' @ [CHR 0x0A]"

definition mixed_bytes :: string where
  "mixed_bytes = ''{A}'' @ [CHR 0x0A] @ ''oops'' @ [CHR 0x0A] @ ''{B}'' @ [CHR 0x0A]"

definition example_now :: Time where
  "example_now = \<lparr>unix_sec = 1700000000, nanos = 5\<rparr>"

definition example_fs :: filesystem where
  "example_fs =
     [(''/var/log'', Directory),
      (''/var/log/audit.log'', Regular example_bytes),
      (''/var/log/audit.log.1699999990'', Regular mixed_bytes),
      (''/var/log/audit.log.1600000000'', Regular ''old''),
      (''/var/log/audit.log.+5'', Regular ''signed''),
      (''/var/log/audit.log.old'', Regular ''kept''),
      (''/var/log/audit.log.1500000000'', Directory),
      (''/var/log/syslog'', Regular ''other'')]"

definition full_disk_env :: env where
  "full_disk_env =
     example_env\<lparr>copy_fault := (\<lambda>p. Some (3, PathError ''write'' p ''no space left on device''))\<rparr>"






text \<open>Processors whose expiration settings are left at zero.\<close>

definition zero_processor :: "(unit panicking_handler) LogProcessor" where
  "zero_processor = example_processor\<lparr>ExpirationJobInterval := 0, LogExpiration := 0\<rparr>"

definition no_retention_processor :: "(unit panicking_handler) LogProcessor" where
  "no_retention_processor = example_processor\<lparr>LogExpiration := 0\<rparr>"





definition far_fs :: filesystem where
  "far_fs =
     [(''/var/log'', Directory),
      (''/var/log/audit.log'', Regular example_bytes),
      (''/var/log/audit.log.9223372036854775807'', Regular ''far'')]"



text \<open>A processor for the log path \<^verbatim>\<open>/\<close>, whose base file name is \<^verbatim>\<open>/\<close>.\<close>

definition root_processor :: "(unit panicking_handler) LogProcessor" where
  "root_processor =
     NewLogProcessor example_env
       \<lparr>AuditLogPath = ''/'', opt_ProcessingJobInterval = 10000000000,
        opt_ExpirationJobInterval = 3600000000000, opt_LogExpiration = 60000000000\<rparr>"

section \<open>Properties of the library functions\<close>

subsection \<open>Paths\<close>

lemma split_slash_ne [simp]: "split_slash s \<noteq> []"
  by (induction s) (auto split: list.splits)

lemma split_slash_app_slash:
  "split_slash (a @ CHR ''/'' # b) = split_slash a @ split_slash b"
  by (induction a) (auto split: list.splits)

lemma split_slash_noslash: "CHR ''/'' \<notin> set x \<Longrightarrow> split_slash x = [x]"
  by (induction x) auto

lemma split_slash_append_noslash:
  "CHR ''/'' \<notin> set x \<Longrightarrow>
   split_slash (f @ x) = butlast (split_slash f) @ [last (split_slash f) @ x]"
proof (induction f)
  case Nil
  then show ?case by (simp add: split_slash_noslash)
next
  case (Cons c f)
  then show ?case
    by (cases "split_slash f") (auto split: list.splits)
qed

lemma split_slash_elems: "e \<in> set (split_slash s) \<Longrightarrow> CHR ''/'' \<notin> set e"
proof (induction s arbitrary: e)
  case Nil
  then show ?case by simp
next
  case (Cons c s)
  then show ?case
    by (cases "split_slash s") (auto split: if_splits)
qed

lemma split_join:
  "xs \<noteq> [] \<Longrightarrow> \<forall>x\<in>set xs. CHR ''/'' \<notin> set x \<Longrightarrow> split_slash (join_slash xs) = xs"
proof (induction xs rule: join_slash.induct)
  case 1
  then show ?case by simp
next
  case (2 x)
  then show ?case by (simp add: split_slash_noslash)
next
  case (3 x y ys)
  then show ?case by (simp add: split_slash_app_slash split_slash_noslash)
qed

lemma join_slash_snoc:
  "join_slash (xs @ [n]) = (if xs = [] then n else join_slash xs @ CHR ''/'' # n)"
  by (induction xs rule: join_slash.induct) auto

lemma path_elem_dotdot: "path_elem ''..''"
  by (simp add: path_elem_def)

lemma clean_elem_valid:
  assumes "\<forall>x\<in>set st. path_elem x" "CHR ''/'' \<notin> set e"
  shows "\<forall>x\<in>set (clean_elem r st e). path_elem x"
proof -
  consider "e = [] \<or> e = ''.''" | "e = ''..''" | "e \<noteq> []" "e \<noteq> ''.''" "e \<noteq> ''..''"
    by blast
  then show ?thesis
  proof cases
    case 1
    then show ?thesis using assms(1) by (auto simp: clean_elem_def)
  next
    case 2
    have "set (clean_elem r st ''..'') \<subseteq> insert ''..'' (set st)"
      by (cases st) (simp_all add: clean_elem_def subset_insertI2)
    then show ?thesis using 2 assms(1) path_elem_dotdot by blast
  next
    case 3
    then have "clean_elem r st e = e # st" by (simp add: clean_elem_def)
    then show ?thesis using 3 assms by (simp add: path_elem_def)
  qed
qed

lemma foldl_clean_valid:
  "\<forall>x\<in>set st. path_elem x \<Longrightarrow> \<forall>e\<in>set es. CHR ''/'' \<notin> set e \<Longrightarrow>
   \<forall>x\<in>set (foldl (clean_elem r) st es). path_elem x"
proof (induction es arbitrary: st)
  case Nil
  then show ?case by simp
next
  case (Cons e es)
  have "\<forall>x\<in>set (clean_elem r st e). path_elem x"
    using Cons.prems by (intro clean_elem_valid) auto
  then show ?case using Cons.IH Cons.prems by simp
qed

lemma join_slash_Cons_ne: "x \<noteq> [] \<Longrightarrow> join_slash (x # xs) \<noteq> []"
  by (cases xs) auto

lemma join_slash_ne: "xs \<noteq> [] \<Longrightarrow> \<forall>x\<in>set xs. path_elem x \<Longrightarrow> join_slash xs \<noteq> []"
  by (cases xs) (auto simp: path_elem_def join_slash_Cons_ne)

lemma join_slash_inj:
  assumes "\<forall>x\<in>set xs. path_elem x" "\<forall>y\<in>set ys. path_elem y"
    and "join_slash xs = join_slash ys"
  shows "xs = ys"
proof (cases "xs = []")
  case True
  show ?thesis
  proof (cases ys)
    case Nil
    then show ?thesis using True by simp
  next
    case (Cons y ys')
    then have "join_slash ys \<noteq> []"
      using assms(2) join_slash_ne [of ys] by blast
    then show ?thesis using assms(3) True by simp
  qed
next
  case False
  then have "join_slash xs \<noteq> []"
    using assms(1) join_slash_ne [of xs] by blast
  then have "ys \<noteq> []" using assms(3) by auto
  have "split_slash (join_slash xs) = xs"
    using False assms(1) by (intro split_join) (auto simp: path_elem_def)
  moreover have "split_slash (join_slash ys) = ys"
    using \<open>ys \<noteq> []\<close> assms(2) by (intro split_join) (auto simp: path_elem_def)
  ultimately show ?thesis using assms(3) by metis
qed

lemma render_path_inj:
  assumes "\<forall>x\<in>set s1. path_elem x" "\<forall>y\<in>set s2. path_elem y"
    and "render_path r s1 = render_path r s2"
  shows "s1 = s2"
proof -
  have one: "join_slash (rev s) \<noteq> ''.''" if "\<forall>x\<in>set s. path_elem x" "s \<noteq> []" for s
  proof
    assume a: "join_slash (rev s) = ''.''"
    have "split_slash (join_slash (rev s)) = rev s"
      using that by (intro split_join) (auto simp: path_elem_def)
    then have "rev s = split_slash ''.''" using a by metis
    then have "rev s = [''.'']" by simp
    then have "rev (rev s) = rev [''.'']" by (rule arg_cong)
    then have "s = [''.'']" by simp
    then show False using that(1) by (simp add: path_elem_def)
  qed
  have "join_slash (rev s1) = join_slash (rev s2) \<Longrightarrow> s1 = s2"
    using join_slash_inj [of "rev s1" "rev s2"] assms(1,2) by simp
  then show ?thesis
    using assms(3) one [OF assms(1)] one [OF assms(2)]
    by (auto simp: render_path_def split: if_splits)
qed

lemma path_Base_simple:
  assumes "n \<noteq> []" "CHR ''/'' \<notin> set n"
  shows "path_Base n = n"
proof -
  have d: "dropWhile (\<lambda>c. c = CHR ''/'') (rev n) = rev n"
    using assms by (cases "rev n") auto
  have t: "takeWhile (\<lambda>c. c \<noteq> CHR ''/'') (rev n) = rev n"
    using assms(2) by (intro takeWhile_eq_all_conv [THEN iffD2]) auto
  show ?thesis unfolding path_Base_def Let_def d t using assms(1) by simp
qed

lemma path_Base_after_slash:
  assumes "n \<noteq> []" "CHR ''/'' \<notin> set n"
  shows "path_Base (pre @ CHR ''/'' # n) = n"
proof -
  have d: "dropWhile (\<lambda>c. c = CHR ''/'') (rev n @ CHR ''/'' # rev pre) = rev n @ CHR ''/'' # rev pre"
    using assms by (cases "rev n") auto
  have "takeWhile (\<lambda>c. c \<noteq> CHR ''/'') (rev n @ CHR ''/'' # rev pre)
          = rev n @ takeWhile (\<lambda>c. c \<noteq> CHR ''/'') (CHR ''/'' # rev pre)"
    using assms(2) by (intro takeWhile_append2) auto
  then have t: "takeWhile (\<lambda>c. c \<noteq> CHR ''/'') (rev n @ CHR ''/'' # rev pre) = rev n"
    by simp
  have r: "rev (pre @ CHR ''/'' # n) = rev n @ CHR ''/'' # rev pre" by simp
  show ?thesis unfolding path_Base_def Let_def r d t using assms(1) by simp
qed

lemma path_Base_render:
  assumes "n \<noteq> []" "CHR ''/'' \<notin> set n"
  shows "path_Base (render_path r (n # st)) = n"
proof (cases "st = []")
  case True
  then show ?thesis
    using assms path_Base_simple [OF assms] path_Base_after_slash [OF assms, of "[]"]
    by (simp add: render_path_def)
next
  case False
  then have j: "join_slash (rev st @ [n]) = join_slash (rev st) @ CHR ''/'' # n"
    by (simp add: join_slash_snoc)
  show ?thesis
    using path_Base_after_slash [OF assms, of "join_slash (rev st)"]
      path_Base_after_slash [OF assms, of "CHR ''/'' # join_slash (rev st)"]
    by (simp add: render_path_def j)
qed

lemma clean_elem_plain: "plain_name n \<Longrightarrow> clean_elem r st n = n # st"
  by (simp add: clean_elem_def plain_name_def)

lemma clean_stack_snoc:
  "clean_stack r (d @ CHR ''/'' # b) = foldl (clean_elem r) (clean_stack r d) (split_slash b)"
  by (simp add: clean_stack_def split_slash_app_slash)

lemma rooted_path_append: "d \<noteq> [] \<Longrightarrow> rooted_path (d @ s) = rooted_path d"
  by (cases d) (auto simp: rooted_path_def)

lemma path_Join_plain:
  assumes "plain_name n"
  shows "\<exists>r st. path_Join d n = render_path r (n # st)"
proof (cases "d = []")
  case True
  have "clean_stack (rooted_path n) n = [n]"
    using assms by (simp add: clean_stack_def split_slash_noslash clean_elem_plain plain_name_def)
  then show ?thesis
    using True assms by (auto simp: path_Join_def path_Clean_def plain_name_def)
next
  case False
  have "clean_stack r (d @ CHR ''/'' # n) = n # clean_stack r d" for r
    using assms by (simp add: clean_stack_snoc split_slash_noslash clean_elem_plain plain_name_def)
  then show ?thesis
    using False assms by (auto simp: path_Join_def path_Clean_def plain_name_def)
qed

lemma path_Base_Join:
  assumes "plain_name n"
  shows "path_Base (path_Join d n) = n"
proof -
  obtain r st where "path_Join d n = render_path r (n # st)"
    using path_Join_plain [OF assms] by blast
  then show ?thesis using assms by (simp add: path_Base_render plain_name_def)
qed

lemma clean_elem_differs:
  assumes "e \<noteq> l" "e \<noteq> ''..''"
  shows "e # st \<noteq> clean_elem r st l"
proof (cases st)
  case Nil
  then show ?thesis using assms by (simp add: clean_elem_def)
next
  case (Cons t ts)
  then show ?thesis using assms by (simp add: clean_elem_def)
qed

lemma clean_stack_valid: "\<forall>x\<in>set (clean_stack r p). path_elem x"
  unfolding clean_stack_def
  by (rule foldl_clean_valid) (auto dest: split_slash_elems)

lemma foldl_clean_stack_valid:
  "\<forall>x\<in>set (foldl (clean_elem r) (clean_stack r p) (split_slash q)). path_elem x"
  by (rule foldl_clean_valid) (auto dest: split_slash_elems simp: clean_stack_valid)

lemma path_Clean_ne: "path_Clean p \<noteq> []"
proof -
  have "join_slash (rev st) \<noteq> []" if "st \<noteq> []" "\<forall>x\<in>set st. path_elem x" for st
    using that join_slash_ne [of "rev st"] by simp
  then show ?thesis
    using clean_stack_valid [of "rooted_path p" p]
    by (auto simp: path_Clean_def render_path_def)
qed

lemma name_suffix_plain:
  assumes "name_suffix x" "CHR ''/'' \<notin> set l"
  shows "plain_name (l @ x)"
proof -
  have "last (l @ x) \<noteq> CHR ''.''" using assms(1) by (simp add: name_suffix_def)
  then have "l @ x \<noteq> ''.''" "l @ x \<noteq> ''..''" by auto
  then show ?thesis using assms by (simp add: plain_name_def name_suffix_def)
qed

lemma foldl_clean_differs:
  assumes "name_suffix x"
  shows "foldl (clean_elem r) st0 (split_slash (f @ x)) \<noteq> foldl (clean_elem r) st0 (split_slash f)"
proof -
  define l where "l = last (split_slash f)"
  define s0 where "s0 = butlast (split_slash f)"
  define st where "st = foldl (clean_elem r) st0 s0"
  have sf: "split_slash f = s0 @ [l]"
    by (simp add: l_def s0_def)
  have sx: "split_slash (f @ x) = s0 @ [l @ x]"
    using assms by (simp add: split_slash_append_noslash name_suffix_def l_def s0_def)
  have "l \<in> set (split_slash f)" by (simp add: l_def)
  then have ls: "CHR ''/'' \<notin> set l" by (rule split_slash_elems)
  have pl: "plain_name (l @ x)" using assms ls by (rule name_suffix_plain)
  have "l @ x \<noteq> l" using assms by (simp add: name_suffix_def)
  moreover have "l @ x \<noteq> ''..''" using pl by (simp add: plain_name_def)
  ultimately have "(l @ x) # st \<noteq> clean_elem r st l" by (rule clean_elem_differs)
  then show ?thesis
    by (simp add: sf sx st_def clean_elem_plain [OF pl])
qed

lemma path_Clean_differs:
  assumes "name_suffix x" "f \<noteq> []"
  shows "path_Clean (f @ x) \<noteq> path_Clean f"
proof
  assume eq: "path_Clean (f @ x) = path_Clean f"
  let ?r = "rooted_path f"
  have "render_path ?r (clean_stack ?r (f @ x)) = render_path ?r (clean_stack ?r f)"
    using eq assms(2) by (simp add: path_Clean_def rooted_path_append)
  then have "clean_stack ?r (f @ x) = clean_stack ?r f"
    using clean_stack_valid by (intro render_path_inj) auto
  then show False
    using foldl_clean_differs [OF assms(1), of ?r "[]" f] by (simp add: clean_stack_def)
qed

lemma path_Join_differs:
  assumes "name_suffix x"
  shows "path_Join d (f @ x) \<noteq> path_Join d f"
proof (cases "d = []")
  case True
  show ?thesis
  proof (cases "f = []")
    case True
    then show ?thesis
      using \<open>d = []\<close> assms path_Clean_ne [of x] by (simp add: path_Join_def name_suffix_def)
  next
    case False
    then show ?thesis
      using \<open>d = []\<close> path_Clean_differs [OF assms False] by (simp add: path_Join_def)
  qed
next
  case False
  have eq: "d @ CHR ''/'' # f @ x = (d @ CHR ''/'' # f) @ x" by simp
  have "path_Clean ((d @ CHR ''/'' # f) @ x) \<noteq> path_Clean (d @ CHR ''/'' # f)"
    using assms by (rule path_Clean_differs) simp
  moreover have "path_Clean (d @ CHR ''/'' # x) \<noteq> path_Clean d"
  proof
    assume e: "path_Clean (d @ CHR ''/'' # x) = path_Clean d"
    let ?r = "rooted_path d"
    have px: "plain_name x" using name_suffix_plain [OF assms, of "[]"] by simp
    have cs: "clean_stack ?r (d @ CHR ''/'' # x) = x # clean_stack ?r d"
      using assms px by (simp add: clean_stack_snoc split_slash_noslash clean_elem_plain name_suffix_def)
    have "render_path ?r (clean_stack ?r (d @ CHR ''/'' # x)) = render_path ?r (clean_stack ?r d)"
      using e False by (simp add: path_Clean_def rooted_path_append)
    then have "clean_stack ?r (d @ CHR ''/'' # x) = clean_stack ?r d"
      using clean_stack_valid by (intro render_path_inj) auto
    then show False using cs by simp
  qed
  ultimately show ?thesis
    using False assms by (auto simp: path_Join_def name_suffix_def)
qed

subsection \<open>Numbers\<close>

lemma less_10_cases:
  "d < 10 \<Longrightarrow> d = 0 \<or> d = 1 \<or> d = 2 \<or> d = 3 \<or> d = 4 \<or> d = 5 \<or> d = 6 \<or> d = 7 \<or> d = 8 \<or> d = (9::nat)"
  by arith

lemma of_char_digit_char: "d < 10 \<Longrightarrow> (of_char (digit_char d) :: nat) = 48 + d"
  using less_10_cases [of d] by (auto simp: digit_char_def)

lemma is_digit_digit_char: "d < 10 \<Longrightarrow> is_digit (digit_char d)"
  by (simp add: is_digit_def of_char_digit_char)

lemma digit_val_digit_char: "d < 10 \<Longrightarrow> digit_val (digit_char d) = d"
  by (simp add: digit_val_def of_char_digit_char)

lemma digits_of_small: "n < 10 \<Longrightarrow> digits_of n = [digit_char n]"
  by (subst digits_of.simps) simp

lemma digits_of_large:
  "\<not> n < 10 \<Longrightarrow> digits_of n = digits_of (n div 10) @ [digit_char (n mod 10)]"
  by (subst digits_of.simps) simp

lemma digits_of_ne: "digits_of n \<noteq> []"
  by (cases "n < 10") (simp_all add: digits_of_small digits_of_large)

lemma digits_of_digits: "c \<in> set (digits_of n) \<Longrightarrow> is_digit c"
proof (induction n arbitrary: c rule: digits_of.induct)
  case (1 n)
  show ?case
  proof (cases "n < 10")
    case True
    then show ?thesis using "1.prems" by (simp add: digits_of_small is_digit_digit_char)
  next
    case False
    then have "c \<in> set (digits_of (n div 10)) \<or> c = digit_char (n mod 10)"
      using "1.prems" by (auto simp: digits_of_large)
    then show ?thesis using "1.IH" [OF False] by (auto simp: is_digit_digit_char)
  qed
qed

lemma parse_digits_snoc:
  "parse_digits s0 a (xs @ [c]) =
     (case parse_digits s0 a xs of
        Inl e \<Rightarrow> Inl e
      | Inr m \<Rightarrow> if \<not> is_digit c then Inl (ErrSyntax s0)
                 else if m * 10 + digit_val c \<ge> 2 ^ 64 then Inl (ErrRange s0)
                 else Inr (m * 10 + digit_val c))"
  by (induction xs arbitrary: a) auto

lemma parse_digits_of: "n < 2 ^ 64 \<Longrightarrow> parse_digits s0 0 (digits_of n) = Inr n"
proof (induction n rule: digits_of.induct)
  case (1 n)
  show ?case
  proof (cases "n < 10")
    case True
    then show ?thesis
      by (simp add: digits_of_small is_digit_digit_char digit_val_digit_char)
  next
    case False
    have "n div 10 < 2 ^ 64" using "1.prems" by (simp add: div_less_dividend less_imp_le order_le_less_trans)
    then have ih: "parse_digits s0 0 (digits_of (n div 10)) = Inr (n div 10)"
      using "1.IH" [OF False] by simp
    have d: "n mod 10 < 10" by simp
    have "\<not> (n div 10 * 10 + n mod 10 \<ge> 2 ^ 64)" using "1.prems" by simp
    then show ?thesis using False
      by (simp add: digits_of_large parse_digits_snoc ih is_digit_digit_char [OF d]
            digit_val_digit_char [OF d])
  qed
qed

lemma is_digit_not_sign: "is_digit c \<Longrightarrow> c \<noteq> CHR ''+'' \<and> c \<noteq> CHR ''-'' \<and> c \<noteq> CHR ''/'' \<and> c \<noteq> CHR ''.''"
  by (auto simp: is_digit_def)

lemma ParseInt_FormatInt:
  assumes "- (2 ^ 63) \<le> i" "i < 2 ^ 63"
  shows "strconv_ParseInt (strconv_FormatInt i) = Inr i"
proof (cases "i < 0")
  case True
  define n where "n = nat (- i)"
  have n: "n \<le> 2 ^ 63" "int n = - i" using assms True by (auto simp: n_def nat_le_iff)
  then have "n < 2 ^ 64" by simp
  then have "parse_digits s0 0 (digits_of n) = Inr n" for s0 by (rule parse_digits_of)
  then show ?thesis
    using True n digits_of_ne [of n]
    by (simp add: strconv_ParseInt_def strconv_FormatInt_def strconv_ParseUint_def n_def [symmetric])
next
  case False
  define n where "n = nat i"
  have n: "n < 2 ^ 63" "int n = i" using assms False by (auto simp: n_def nat_less_iff)
  then have "n < 2 ^ 64" by simp
  then have p: "parse_digits s0 0 (digits_of n) = Inr n" for s0 by (rule parse_digits_of)
  obtain c cs where cs: "digits_of n = c # cs" using digits_of_ne [of n] by (cases "digits_of n") auto
  then have "is_digit c" using digits_of_digits [of c n] by simp
  then have "c \<noteq> CHR ''+''" "c \<noteq> CHR ''-''" using is_digit_not_sign by auto
  then show ?thesis
    using False n p [of "c # cs"] cs
    by (simp add: strconv_ParseInt_def strconv_FormatInt_def strconv_ParseUint_def n_def [symmetric])
qed

lemma FormatInt_suffix:
  "strconv_FormatInt i \<noteq> [] \<and> CHR ''/'' \<notin> set (strconv_FormatInt i) \<and> last (strconv_FormatInt i) \<noteq> CHR ''.''"
proof -
  have a: "CHR ''/'' \<notin> set (digits_of n)" for n
    using digits_of_digits is_digit_not_sign by blast
  have "last (digits_of n) \<in> set (digits_of n)" for n
    using digits_of_ne by simp
  then have b: "last (digits_of n) \<noteq> CHR ''.''" for n
    using digits_of_digits is_digit_not_sign by blast
  show ?thesis using a b digits_of_ne by (simp add: strconv_FormatInt_def)
qed

lemma foldl_digits_mono: "a \<le> foldl (\<lambda>a c. a * 10 + digit_val c) a ds"
proof (induction ds arbitrary: a)
  case Nil
  then show ?case by simp
next
  case (Cons c ds)
  have "a \<le> a * 10 + digit_val c" by simp
  also have "\<dots> \<le> foldl (\<lambda>a c. a * 10 + digit_val c) (a * 10 + digit_val c) ds" by (rule Cons.IH)
  finally show ?case by simp
qed

lemma parse_digits_Inr:
  "a < 2 ^ 64 \<Longrightarrow>
   parse_digits s0 a ds = Inr v \<longleftrightarrow>
     list_all is_digit ds \<and> foldl (\<lambda>a c. a * 10 + digit_val c) a ds < 2 ^ 64 \<and>
     v = foldl (\<lambda>a c. a * 10 + digit_val c) a ds"
proof (induction ds arbitrary: a)
  case Nil
  then show ?case by auto
next
  case (Cons c ds)
  show ?case
  proof (cases "is_digit c \<and> a * 10 + digit_val c < 2 ^ 64")
    case True
    then show ?thesis using Cons.IH [of "a * 10 + digit_val c"] by simp
  next
    case False
    have "foldl (\<lambda>a c. a * 10 + digit_val c) (a * 10 + digit_val c) ds \<ge> 2 ^ 64"
      if "\<not> a * 10 + digit_val c < 2 ^ 64"
      using that foldl_digits_mono [of "a * 10 + digit_val c" ds] by linarith
    then show ?thesis using False by auto
  qed
qed

lemma ParseUint_Inr:
  "strconv_ParseUint s0 ds = Inr v \<longleftrightarrow>
     ds \<noteq> [] \<and> list_all is_digit ds \<and> decimal_value ds < 2 ^ 64 \<and> v = decimal_value ds"
  using parse_digits_Inr [of 0 s0 ds v]
  by (auto simp: strconv_ParseUint_def decimal_value_def)

lemma ParseInt_succeeds: "(\<exists>v. strconv_ParseInt s = Inr v) \<longleftrightarrow> is_decimal_int64 s"
proof (cases s)
  case Nil
  then show ?thesis by (simp add: strconv_ParseInt_def is_decimal_int64_def)
next
  case (Cons c cs)
  define ds where "ds = (if c = CHR ''+'' \<or> c = CHR ''-'' then cs else s)"
  have pi: "strconv_ParseInt s =
      (case strconv_ParseUint s ds of
         Inl err \<Rightarrow> Inl err
       | Inr un \<Rightarrow>
           if c \<noteq> CHR ''-'' \<and> un \<ge> 2 ^ 63 then Inl (ErrRange s)
           else if c = CHR ''-'' \<and> un > 2 ^ 63 then Inl (ErrRange s)
           else Inr (if c = CHR ''-'' then - int un else int un))"
    unfolding strconv_ParseInt_def Cons ds_def by (simp add: Let_def)
  have di: "is_decimal_int64 s \<longleftrightarrow>
      ds \<noteq> [] \<and> list_all is_digit ds \<and>
      (if c = CHR ''-'' then decimal_value ds \<le> 2 ^ 63 else decimal_value ds < 2 ^ 63)"
    unfolding is_decimal_int64_def Cons ds_def by (simp add: Let_def)
  show ?thesis
  proof (cases "strconv_ParseUint s ds")
    case (Inl e)
    then have "\<not> (ds \<noteq> [] \<and> list_all is_digit ds \<and> decimal_value ds < 2 ^ 64)"
      using ParseUint_Inr [of s ds "decimal_value ds"] by auto
    moreover have "decimal_value ds < 2 ^ 64" if "decimal_value ds \<le> 2 ^ 63"
      using that by simp
    ultimately have "\<not> is_decimal_int64 s"
      unfolding di by (auto split: if_splits)
    then show ?thesis
      unfolding pi Inl by simp
  next
    case (Inr un)
    then have "ds \<noteq> [] \<and> list_all is_digit ds \<and> un = decimal_value ds"
      using ParseUint_Inr [of s ds un] by simp
    then show ?thesis
      unfolding pi Inr di by auto
  qed
qed

lemma TrimPrefix_append: "strings_TrimPrefix (pre @ s) pre = s"
  by (simp add: strings_TrimPrefix_def strings_HasPrefix_def)

lemma HasPrefix_append: "strings_HasPrefix (pre @ s) pre"
  by (simp add: strings_HasPrefix_def)


subsection \<open>Files\<close>

lemma fs_lookup_delete: "fs_lookup (fs_delete p fs) q = (if q = p then None else fs_lookup fs q)"
  by (induction fs) (auto simp: fs_lookup_def fs_delete_def)

lemma fs_lookup_store: "fs_lookup (fs_store p n fs) q = (if q = p then Some n else fs_lookup fs q)"
  using fs_lookup_delete [of p fs q] by (simp add: fs_store_def fs_lookup_def)

lemma backup_name_differs:
  "generateNewBackupFilename p now \<noteq> path_Join (auditLogDir p) (auditLogFile p)"
proof -
  have "name_suffix (''.'' @ strconv_FormatInt (time_Unix now))"
    using FormatInt_suffix [of "time_Unix now"] by (simp add: name_suffix_def)
  then show ?thesis
    unfolding generateNewBackupFilename_def Let_def by (rule path_Join_differs)
qed

lemma os_Open_Inr: "os_Open e fs name = Inr h \<Longrightarrow> h = name \<and> (\<exists>n. fs_lookup fs name = Some n)"
  by (auto simp: os_Open_def split: option.splits node.splits)

lemma os_Create_Inr: "os_Create e fs name = (Inr h, fs1) \<Longrightarrow> h = name \<and> fs1 = fs_store name (Regular []) fs"
  by (auto simp: os_Create_def split: option.splits node.splits)

lemma os_Create_Inl: "os_Create e fs name = (Inl err, fs1) \<Longrightarrow> fs1 = fs"
  by (auto simp: os_Create_def split: option.splits node.splits)

lemma io_Copy_Inr:
  "io_Copy e fs dst src = (Inr n, fs2) \<Longrightarrow>
   \<exists>bytes old. fs_lookup fs src = Some (Regular bytes) \<and> fs_lookup fs dst = Some (Regular old) \<and>
               n = length bytes \<and> fs2 = fs_store dst (Regular (write_at_start bytes old)) fs"
  by (auto simp: io_Copy_def split: option.splits node.splits prod.splits)

lemma io_Copy_other:
  "io_Copy e fs dst src = (r, fs2) \<Longrightarrow> q \<noteq> dst \<Longrightarrow> fs_lookup fs2 q = fs_lookup fs q"
  by (auto simp: io_Copy_def fs_lookup_store split: option.splits node.splits prod.splits)

lemma os_Truncate_None:
  "os_Truncate e fs name 0 = (None, fs3) \<Longrightarrow>
   (\<exists>bytes. fs_lookup fs name = Some (Regular bytes)) \<and> fs3 = fs_store name (Regular []) fs"
  by (auto simp: os_Truncate_def split: option.splits node.splits)

lemma os_Truncate_Some: "os_Truncate e fs name sz = (Some err, fs3) \<Longrightarrow> fs3 = fs"
  by (auto simp: os_Truncate_def split: option.splits node.splits)

lemma write_at_start_empty: "write_at_start bytes [] = bytes"
  by (simp add: write_at_start_def)

text \<open>The steps of a rotation that succeeds, and what they leave.\<close>

lemma rotateLogs_Inr:
  assumes "rotateLogs p e now fs = (Inr name, fs')"
  shows "\<exists>fs1 fs2 n.
           os_Open e fs (path_Join (auditLogDir p) (auditLogFile p))
             = Inr (path_Join (auditLogDir p) (auditLogFile p)) \<and>
           os_Create e fs name = (Inr name, fs1) \<and>
           io_Copy e fs1 name (path_Join (auditLogDir p) (auditLogFile p)) = (Inr n, fs2) \<and>
           os_Truncate e fs2 (path_Join (auditLogDir p) (auditLogFile p)) 0 = (None, fs') \<and>
           name = generateNewBackupFilename p now"
  using assms
  by (auto simp: rotateLogs_def Let_def
      split: sum.splits prod.splits option.splits dest!: os_Open_Inr os_Create_Inr)

lemma rotateLogs_Inl:
  assumes "rotateLogs p e now fs = (Inl err, fs')"
  shows "fs_lookup fs' (path_Join (auditLogDir p) (auditLogFile p))
           = fs_lookup fs (path_Join (auditLogDir p) (auditLogFile p))"
proof -
  let ?log = "path_Join (auditLogDir p) (auditLogFile p)"
  let ?copy = "generateNewBackupFilename p now"
  have ne: "?log \<noteq> ?copy" using backup_name_differs [of p now] by simp
  show ?thesis
  proof (cases "os_Open e fs ?log")
    case (Inl a)
    then show ?thesis using assms by (simp add: rotateLogs_def)
  next
    case (Inr h)
    obtain r1 fs1 where cr: "os_Create e fs ?copy = (r1, fs1)" by (cases "os_Create e fs ?copy")
    show ?thesis
    proof (cases r1)
      case (Inl a)
      then have "fs1 = fs" using cr os_Create_Inl by blast
      then show ?thesis using assms Inr cr Inl by (simp add: rotateLogs_def)
    next
      case c: (Inr copyFile)
      then have h1: "copyFile = ?copy" and fs1: "fs1 = fs_store ?copy (Regular []) fs"
        using cr os_Create_Inr by blast+
      have l1: "fs_lookup fs1 ?log = fs_lookup fs ?log"
        using ne by (simp add: fs1 fs_lookup_store)
      have h0: "h = ?log" using Inr os_Open_Inr by blast
      obtain r2 fs2 where cp: "io_Copy e fs1 ?copy ?log = (r2, fs2)"
        by (cases "io_Copy e fs1 ?copy ?log")
      have l2: "fs_lookup fs2 ?log = fs_lookup fs1 ?log"
        using cp ne by (rule io_Copy_other)
      show ?thesis
      proof (cases r2)
        case (Inl a)
        then have "fs' = fs2"
          using assms Inr cr c cp h0 h1 by (simp add: rotateLogs_def Let_def)
        then show ?thesis using l1 l2 by simp
      next
        case n: (Inr n)
        obtain r3 fs3 where tr: "os_Truncate e fs2 ?log 0 = (r3, fs3)"
          by (cases "os_Truncate e fs2 ?log 0")
        show ?thesis
        proof (cases r3)
          case None
          then show ?thesis
            using assms Inr cr c cp n tr h0 h1 by (simp add: rotateLogs_def Let_def)
        next
          case (Some a)
          then have "fs3 = fs2" using tr os_Truncate_Some by blast
          moreover have "fs' = fs3"
            using assms Inr cr c cp n tr Some h0 h1 by (simp add: rotateLogs_def Let_def)
          ultimately show ?thesis using l1 l2 by simp
        qed
      qed
    qed
  qed
qed

lemma rotateLogs_effect:
  assumes "rotateLogs p e now fs = (Inr name, fs')"
  shows "name = generateNewBackupFilename p now \<and>
         (\<exists>bytes. fs_lookup fs (path_Join (auditLogDir p) (auditLogFile p)) = Some (Regular bytes) \<and>
                  fs_lookup fs' name = Some (Regular bytes)) \<and>
         fs_lookup fs' (path_Join (auditLogDir p) (auditLogFile p)) = Some (Regular []) \<and>
         (\<forall>q. q \<noteq> name \<and> q \<noteq> path_Join (auditLogDir p) (auditLogFile p)
               \<longrightarrow> fs_lookup fs' q = fs_lookup fs q)"
proof -
  let ?log = "path_Join (auditLogDir p) (auditLogFile p)"
  obtain fs1 fs2 n where
    cr: "os_Create e fs name = (Inr name, fs1)" and
    cp: "io_Copy e fs1 name ?log = (Inr n, fs2)" and
    tr: "os_Truncate e fs2 ?log 0 = (None, fs')" and
    nm: "name = generateNewBackupFilename p now"
    using rotateLogs_Inr [OF assms] by blast
  have ne: "name \<noteq> ?log" by (simp add: nm backup_name_differs)
  have fs1: "fs1 = fs_store name (Regular []) fs" using os_Create_Inr [OF cr] by simp
  obtain bytes old where
    src: "fs_lookup fs1 ?log = Some (Regular bytes)" and
    dst: "fs_lookup fs1 name = Some (Regular old)" and
    fs2: "fs2 = fs_store name (Regular (write_at_start bytes old)) fs1"
    using io_Copy_Inr [OF cp] by blast
  have old: "old = []" using dst by (simp add: fs1 fs_lookup_store)
  have live: "fs_lookup fs ?log = Some (Regular bytes)"
    using src ne by (simp add: fs1 fs_lookup_store)
  have fs3: "fs' = fs_store ?log (Regular []) fs2" using os_Truncate_None [OF tr] by simp
  have 1: "fs_lookup fs' name = Some (Regular bytes)"
    using ne by (simp add: fs3 fs2 old fs_lookup_store write_at_start_empty)
  have 2: "fs_lookup fs' ?log = Some (Regular [])"
    by (simp add: fs3 fs_lookup_store)
  have 3: "fs_lookup fs' q = fs_lookup fs q" if "q \<noteq> name" "q \<noteq> ?log" for q
    using that by (simp add: fs3 fs2 fs1 fs_lookup_store)
  show ?thesis using nm live 1 2 3 by blast
qed

subsection \<open>The small world\<close>

lemma example_backup_name:
  "generateNewBackupFilename example_processor \<lparr>unix_sec = 1700000000, nanos = 5\<rparr>
     = ''/var/log/audit.log.1700000000''"
proof -
  have f: "strconv_FormatInt 1700000000 = ''1700000000''"
    by (simp add: strconv_FormatInt_def digits_of.simps digit_char_def)
  have j: "path_Join ''/var/log'' ''audit.log.1700000000'' = ''/var/log/audit.log.1700000000''"
    by (simp add: path_Join_def path_Clean_def rooted_path_def clean_stack_def render_path_def
          clean_elem_def)
  show ?thesis
    by (simp add: generateNewBackupFilename_def example_processor_def time_Unix_def f j)
qed

lemma example_log_path:
  "path_Join (auditLogDir example_processor) (auditLogFile example_processor) = ''/var/log/audit.log''"
  by (simp add: example_processor_def path_Join_def path_Clean_def rooted_path_def clean_stack_def
        render_path_def clean_elem_def)

lemma example_backup_name':
  "generateNewBackupFilename example_processor example_now = ''/var/log/audit.log.1700000000''"
  using example_backup_name by (simp add: example_now_def)

lemma example_rotation:
  "fst (rotateLogs example_processor example_env example_now example_fs)
     = Inr ''/var/log/audit.log.1700000000''"
  by (simp add: rotateLogs_def Let_def example_log_path example_backup_name' os_Open_def os_Create_def
        io_Copy_def os_Truncate_def fs_lookup_def fs_store_def fs_delete_def example_fs_def
        example_env_def)

lemma example_failed_rotation:
  "fst (rotateLogs example_processor full_disk_env example_now example_fs)
     = Inl (Errorf ''failed to copy audit log contents: ''
              (PathError ''write'' ''/var/log/audit.log.1700000000'' ''no space left on device''))"
  by (simp add: rotateLogs_def Let_def example_log_path example_backup_name' os_Open_def os_Create_def
        io_Copy_def os_Truncate_def fs_lookup_def fs_store_def fs_delete_def example_fs_def
        example_env_def full_disk_env_def)

subsection \<open>Processing\<close>

















subsection \<open>Expiration\<close>

lemma ParseInt_value:
  assumes a: "strconv_ParseInt s = Inr v"
  shows "v = decimal_int s"
proof (cases s)
  case Nil
  then show ?thesis using a by (simp add: strconv_ParseInt_def)
next
  case (Cons c cs)
  define ds where "ds = (if c = CHR ''+'' \<or> c = CHR ''-'' then cs else s)"
  obtain un where un: "strconv_ParseUint s ds = Inr un"
    using a Cons by (cases "strconv_ParseUint s ds") (auto simp: strconv_ParseInt_def ds_def Let_def)
  then have "un = decimal_value ds" using ParseUint_Inr [of s ds un] by simp
  then show ?thesis
    using a Cons un
    by (auto simp: strconv_ParseInt_def decimal_int_def ds_def Let_def split: if_splits)
qed

lemma ParseInt_iff:
  "strconv_ParseInt s = Inr v \<longleftrightarrow> is_decimal_int64 s \<and> v = decimal_int s"
  using ParseInt_succeeds [of s] ParseInt_value [of s] by (cases "strconv_ParseInt s") auto

text \<open>The test of the sweep on a name, in the words of the naming convention.\<close>

lemma swept_name:
  assumes "path_Base name = name"
  shows "isBackupFile p name \<and>
         (case parseTimestampFromBackupFilename p name of
            Inl err \<Rightarrow> False
          | Inr timestamp \<Rightarrow> time_Sub now timestamp > LogExpiration p)
         \<longleftrightarrow> expired p now name"
proof (cases "strings_HasPrefix name (auditLogFile p @ ''.'')")
  case False
  then show ?thesis using assms by (simp add: isBackupFile_def expired_def backup_suffix_def)
next
  case True
  define sfx where "sfx = drop (length (auditLogFile p @ ''.'')) name"
  have trim: "strings_TrimPrefix (path_Base name) (auditLogFile p @ ''.'') = sfx"
    unfolding assms using True by (simp add: strings_TrimPrefix_def sfx_def)
  have ex: "expired p now name \<longleftrightarrow>
        is_decimal_int64 sfx \<and> time_Sub now (time_of_Unix (decimal_int sfx)) > LogExpiration p"
    using True by (simp add: expired_def backup_suffix_def sfx_def)
  show ?thesis
  proof (cases "strconv_ParseInt sfx")
    case (Inl err)
    then have "\<not> is_decimal_int64 sfx" using ParseInt_succeeds [of sfx] by auto
    then show ?thesis
      using Inl trim by (simp add: ex parseTimestampFromBackupFilename_def isBackupFile_def)
  next
    case (Inr v)
    then have "is_decimal_int64 sfx" "v = decimal_int sfx" using ParseInt_iff [of sfx v] by auto
    then show ?thesis
      using Inr trim True assms
      by (simp add: ex parseTimestampFromBackupFilename_def isBackupFile_def)
  qed
qed

lemma os_Remove_lookup:
  assumes "fs_lookup fs name \<noteq> Some Directory"
  shows "fs_lookup (snd (os_Remove e fs name)) q
           = (if q = name \<and> remove_fault e name = None then None else fs_lookup fs q)"
  using assms
  by (auto simp: os_Remove_def fs_lookup_delete split: option.splits node.splits)

lemma expire_entries_lookup:
  assumes "\<forall>f\<in>set files. de_Type f = ModeRegular \<longrightarrow>
             fs_lookup fs (path_Join (auditLogDir p) (de_Name f)) \<noteq> Some Directory"
  shows "fs_lookup (snd (expire_entries p e now files fs)) q
           = (if (\<exists>f\<in>set files. swept p now f \<and> path_Join (auditLogDir p) (de_Name f) = q) \<and>
                 remove_fault e q = None
              then None else fs_lookup fs q)"
  using assms
proof (induction files arbitrary: fs)
  case Nil
  then show ?case by simp
next
  case (Cons entry files)
  let ?full = "path_Join (auditLogDir p) (de_Name entry)"
  have rest: "\<forall>f\<in>set files. de_Type f = ModeRegular \<longrightarrow>
             fs_lookup fs (path_Join (auditLogDir p) (de_Name f)) \<noteq> Some Directory"
    using Cons.prems by simp
  show ?case
  proof (cases "swept p now entry")
    case False
    then have "snd (expire_entries p e now (entry # files) fs) = snd (expire_entries p e now files fs)"
      by (auto simp: swept_def split: sum.splits prod.splits)
    then show ?thesis using Cons.IH [OF rest] False by auto
  next
    case True
    then obtain timestamp where
      ty: "de_Type entry = ModeRegular" and bk: "isBackupFile p (de_Name entry)" and
      ts: "parseTimestampFromBackupFilename p (de_Name entry) = Inr timestamp" and
      old: "time_Sub now timestamp > LogExpiration p"
      by (auto simp: swept_def split: sum.splits)
    define fs1 where "fs1 = snd (os_Remove e fs ?full)"
    have nd: "fs_lookup fs ?full \<noteq> Some Directory" using Cons.prems ty by simp
    have l1: "fs_lookup fs1 q' = (if q' = ?full \<and> remove_fault e ?full = None then None
                                  else fs_lookup fs q')" for q'
      unfolding fs1_def using nd by (rule os_Remove_lookup)
    have rest1: "\<forall>f\<in>set files. de_Type f = ModeRegular \<longrightarrow>
             fs_lookup fs1 (path_Join (auditLogDir p) (de_Name f)) \<noteq> Some Directory"
      using rest by (simp add: l1)
    have step: "snd (expire_entries p e now (entry # files) fs) = snd (expire_entries p e now files fs1)"
      using ty bk ts old by (simp add: fs1_def Let_def split: prod.splits option.splits)
    show ?thesis
      unfolding step using Cons.IH [OF rest1] True by (auto simp: l1)
  qed
qed

lemma dir_entries_set:
  "f \<in> set (dir_entries fs dir) \<longleftrightarrow>
     (\<exists>q n. fs_lookup fs q = Some n \<and> in_dir dir q \<and>
            f = \<lparr>de_Name = path_Base q, de_Type = mode_of n\<rparr>)"
proof -
  have k: "fs_lookup fs q = Some n \<Longrightarrow> q \<in> fst ` set fs" for q n
    by (auto simp: fs_lookup_def dest: map_of_SomeD intro: rev_image_eqI)
  show ?thesis
  proof
    assume "f \<in> set (dir_entries fs dir)"
    then obtain q where "q \<in> fst ` set fs"
      and m: "f \<in> set (case fs_lookup fs q of None \<Rightarrow> []
                 | Some n \<Rightarrow> if in_dir dir q
                             then [\<lparr>de_Name = path_Base q, de_Type = mode_of n\<rparr>] else [])"
      by (auto simp: dir_entries_def)
    then show "\<exists>q n. fs_lookup fs q = Some n \<and> in_dir dir q \<and>
            f = \<lparr>de_Name = path_Base q, de_Type = mode_of n\<rparr>"
      by (cases "fs_lookup fs q") (auto split: if_splits)
  next
    assume "\<exists>q n. fs_lookup fs q = Some n \<and> in_dir dir q \<and>
            f = \<lparr>de_Name = path_Base q, de_Type = mode_of n\<rparr>"
    then obtain q n where q: "fs_lookup fs q = Some n" "in_dir dir q"
      "f = \<lparr>de_Name = path_Base q, de_Type = mode_of n\<rparr>" by blast
    have "q \<in> set (remdups (map fst fs))" using k [OF q(1)] by simp
    then show "f \<in> set (dir_entries fs dir)"
      unfolding dir_entries_def using q by (force simp: image_iff)
  qed
qed

lemma mode_of_Regular: "mode_of n = ModeRegular \<longleftrightarrow> (\<exists>bytes. n = Regular bytes)"
  by (cases n) (simp_all add: mode_of_def)

text \<open>What a sweep that could list the directory leaves.\<close>

lemma expire_lookup:
  assumes "fst (expireBackupLogFiles p e now fs) = None"
  shows "fs_lookup (snd (snd (expireBackupLogFiles p e now fs))) q
           = (if (\<exists>bytes. fs_lookup fs q = Some (Regular bytes)) \<and> in_dir (auditLogDir p) q \<and>
                 expired p now (path_Base q) \<and> remove_fault e q = None
              then None else fs_lookup fs q)"
proof -
  let ?dir = "auditLogDir p"
  let ?files = "dir_entries fs ?dir"
  have rd: "os_ReadDir e fs ?dir = Inr ?files"
    using assms
    by (auto simp: expireBackupLogFiles_def os_ReadDir_def Let_def
             split: sum.splits option.splits node.splits prod.splits if_splits)
  have res: "snd (snd (expireBackupLogFiles p e now fs)) = snd (expire_entries p e now ?files fs)"
    using rd by (simp add: expireBackupLogFiles_def Let_def split: prod.splits)
  have inv: "\<forall>f\<in>set ?files. de_Type f = ModeRegular \<longrightarrow>
               fs_lookup fs (path_Join ?dir (de_Name f)) \<noteq> Some Directory"
    by (auto simp: dir_entries_set in_dir_def mode_of_def)
  have cond: "(\<exists>f\<in>set ?files. swept p now f \<and> path_Join ?dir (de_Name f) = q)
              \<longleftrightarrow> (\<exists>bytes. fs_lookup fs q = Some (Regular bytes)) \<and> in_dir ?dir q \<and>
                  expired p now (path_Base q)"
    (is "?l \<longleftrightarrow> ?r")
  proof
    assume ?l
    then obtain q' n where
      q': "fs_lookup fs q' = Some n" "in_dir ?dir q'" and
      sw: "swept p now \<lparr>de_Name = path_Base q', de_Type = mode_of n\<rparr>" and
      jq: "path_Join ?dir (path_Base q') = q"
      by (auto simp: dir_entries_set)
    have qq: "q' = q" using q'(2) jq by (simp add: in_dir_def)
    have pb: "path_Base (path_Base q) = path_Base q"
      using q'(2) qq by (simp add: in_dir_def path_Base_simple plain_name_def)
    have "expired p now (path_Base q)"
      using sw swept_name [OF pb, of p now] by (simp add: swept_def qq)
    moreover have "\<exists>bytes. n = Regular bytes"
      using sw by (simp add: swept_def mode_of_Regular)
    ultimately show ?r using q' qq by auto
  next
    assume r: ?r
    then obtain bytes where b: "fs_lookup fs q = Some (Regular bytes)" by blast
    have pb: "path_Base (path_Base q) = path_Base q"
      using r by (simp add: in_dir_def path_Base_simple plain_name_def)
    have "swept p now \<lparr>de_Name = path_Base q, de_Type = mode_of (Regular bytes)\<rparr>"
      using r swept_name [OF pb, of p now] by (simp add: swept_def mode_of_def)
    moreover have "\<lparr>de_Name = path_Base q, de_Type = mode_of (Regular bytes)\<rparr> \<in> set ?files"
      using r b by (auto simp: dir_entries_set)
    moreover have "path_Join ?dir (path_Base q) = q" using r by (simp add: in_dir_def)
    ultimately show ?l by force
  qed
  show ?thesis
    unfolding res expire_entries_lookup [OF inv] cond by simp
qed




lemma time_Sub_positive: "time_Sub t u > 0 \<longleftrightarrow> exact_diff t u > 0"
  by (simp add: time_Sub_def Let_def maxDuration_def minDuration_def)

lemma time_Sub_exceeds:
  assumes "minDuration \<le> r" "r < maxDuration"
  shows "time_Sub t u > r \<longleftrightarrow> exact_diff t u > r"
  using assms by (auto simp: time_Sub_def Let_def maxDuration_def minDuration_def)

lemma time_Sub_Before:
  assumes "nanos t < 1000000000" "nanos u < 1000000000"
  shows "time_Sub t u > 0 \<longleftrightarrow> time_Before u t"
proof -
  consider "time_sec u < time_sec t" | "time_sec u = time_sec t" | "time_sec t < time_sec u"
    by linarith
  then have "exact_diff t u > 0 \<longleftrightarrow> time_Before u t"
  proof cases
    case 1
    then have "(time_sec t - time_sec u) * 1000000000 \<ge> 1000000000" by simp
    then show ?thesis using 1 assms by (simp add: exact_diff_def time_Before_def)
  next
    case 2
    then show ?thesis by (simp add: exact_diff_def time_Before_def)
  next
    case 3
    then have "(time_sec t - time_sec u) * 1000000000 \<le> - 1000000000" by simp
    then show ?thesis using 3 assms by (simp add: exact_diff_def time_Before_def)
  qed
  then show ?thesis by (simp add: time_Sub_positive)
qed

lemma sint_word_of_int_self:
  "- (2 ^ 63) \<le> k \<Longrightarrow> k < 2 ^ 63 \<Longrightarrow> sint (word_of_int k :: 64 word) = k"
  by (simp add: sint_sbintrunc' signed_take_bit_int_eq_self)


lemma time_sec_of_Unix:
  assumes "- (2 ^ 63) \<le> s + 62135596800" "s + 62135596800 < 2 ^ 63"
  shows "time_sec (time_of_Unix s) = s + 62135596800"
proof -
  have "unix_sec (time_of_Unix s) + unixToInternal = (word_of_int (s + 62135596800) :: 64 word)"
    by (simp add: time_of_Unix_def unixToInternal_def)
  then have "time_sec (time_of_Unix s) = sint (word_of_int (s + 62135596800) :: 64 word)"
    by (simp only: time_sec_def)
  also have "\<dots> = s + 62135596800"
    using assms by (rule sint_word_of_int_self)
  finally show ?thesis .
qed

lemma time_sec_of_Unix_wrapped:
  assumes "9223371974719179007 < s" "s < 2 ^ 63"
  shows "time_sec (time_of_Unix s) = s + 62135596800 - 2 ^ 64"
proof -
  have "unix_sec (time_of_Unix s) + unixToInternal
          = (word_of_int (s + 62135596800 - 2 ^ 64) :: 64 word)"
    by (simp add: time_of_Unix_def unixToInternal_def)
  then have "time_sec (time_of_Unix s) = sint (word_of_int (s + 62135596800 - 2 ^ 64) :: 64 word)"
    by (simp only: time_sec_def)
  also have "\<dots> = s + 62135596800 - 2 ^ 64"
    by (rule sint_word_of_int_self) (use assms in simp_all)
  finally show ?thesis .
qed

lemma expired_zero: "LogExpiration p = 0\<Longrightarrow> expired p now name = stamped_before p now name"
  by (simp add: expired_def stamped_before_def time_Sub_positive split: option.splits)

lemma sweep_lists:
  "fst (expireBackupLogFiles p e now fs) = None \<longleftrightarrow>
     readdir_fault e (auditLogDir p) = None \<and> fs_lookup fs (auditLogDir p) = Some Directory"
  by (auto simp: expireBackupLogFiles_def os_ReadDir_def Let_def
           split: sum.splits option.splits node.splits prod.splits)

lemma example_sweep_lists:
  "fst (expireBackupLogFiles example_processor example_env example_now example_fs) = None"
  "fst (expireBackupLogFiles zero_processor example_env example_now example_fs) = None"
  "fst (expireBackupLogFiles no_retention_processor example_env example_now example_fs) = None"
  by (simp_all add: sweep_lists example_processor_def zero_processor_def no_retention_processor_def
        example_env_def example_fs_def fs_lookup_def)

lemma example_fs_lookup:
  "fs_lookup example_fs ''/var/log/audit.log'' = Some (Regular example_bytes)"
  "fs_lookup example_fs ''/var/log/audit.log.1699999990'' = Some (Regular mixed_bytes)"
  "fs_lookup example_fs ''/var/log/audit.log.1600000000'' = Some (Regular ''old'')"
  "fs_lookup example_fs ''/var/log/audit.log.+5'' = Some (Regular ''signed'')"
  "fs_lookup example_fs ''/var/log/audit.log.old'' = Some (Regular ''kept'')"
  "fs_lookup example_fs ''/var/log/audit.log.1500000000'' = Some Directory"
  "fs_lookup example_fs ''/var/log/syslog'' = Some (Regular ''other'')"
  by (simp_all add: example_fs_def fs_lookup_def)

lemma example_in_dir:
  "in_dir ''/var/log'' ''/var/log/audit.log.1699999990''"
  "in_dir ''/var/log'' ''/var/log/audit.log.1600000000''"
  "in_dir ''/var/log'' ''/var/log/audit.log.+5''"
  "in_dir ''/var/log'' ''/var/log/audit.log.old''"
  "in_dir ''/var/log'' ''/var/log/syslog''"
  by (simp_all add: in_dir_def plain_name_def path_Base_def path_Join_def path_Clean_def
        rooted_path_def clean_stack_def render_path_def clean_elem_def)

lemma example_base:
  "path_Base ''/var/log/audit.log.1699999990'' = ''audit.log.1699999990''"
  "path_Base ''/var/log/audit.log.1600000000'' = ''audit.log.1600000000''"
  "path_Base ''/var/log/audit.log.+5'' = ''audit.log.+5''"
  "path_Base ''/var/log/audit.log.old'' = ''audit.log.old''"
  "path_Base ''/var/log/syslog'' = ''syslog''"
  by (simp_all add: path_Base_def)


lemma example_stamped:
  "stamped_before zero_processor example_now ''audit.log.1699999990''"
  "stamped_before no_retention_processor example_now ''audit.log.1699999990''"
  by (simp_all add: stamped_before_def backup_suffix_def strings_HasPrefix_def example_processor_def
        zero_processor_def no_retention_processor_def
        is_decimal_int64_def is_digit_def decimal_value_def digit_val_def decimal_int_def
        exact_diff_def time_sec_def unixToInternal_def time_of_Unix_def example_now_def)


lemma example_job_sweeps:
  "snd (snd (StartExpirationJob no_retention_processor example_env [Tick example_now, StopSignal]
               example_fs))
     = snd (snd (expireBackupLogFiles no_retention_processor example_env example_now example_fs))"
  by (simp add: StartExpirationJob_def Let_def no_retention_processor_def example_processor_def
        split: prod.splits)

lemma far_stamp_age:
  "time_Sub example_now (time_of_Unix 9223372036854775807) = maxDuration"
  by (simp add: time_Sub_def exact_diff_def time_sec_def unixToInternal_def time_of_Unix_def
        example_now_def maxDuration_def minDuration_def)

lemma far_stamp_is_swept:
  "fs_lookup far_fs ''/var/log/audit.log.9223372036854775807'' = Some (Regular ''far'') \<and>
   fst (expireBackupLogFiles example_processor example_env example_now far_fs) = None \<and>
   fs_lookup (snd (snd (expireBackupLogFiles example_processor example_env example_now far_fs)))
     ''/var/log/audit.log.9223372036854775807'' = None"
proof -
  have l: "fst (expireBackupLogFiles example_processor example_env example_now far_fs) = None"
    by (simp add: sweep_lists example_processor_def example_env_def far_fs_def fs_lookup_def)
  have f: "fs_lookup far_fs ''/var/log/audit.log.9223372036854775807'' = Some (Regular ''far'')"
    by (simp add: far_fs_def fs_lookup_def)
  have d: "in_dir ''/var/log'' ''/var/log/audit.log.9223372036854775807''"
    by (simp add: in_dir_def plain_name_def path_Base_def path_Join_def path_Clean_def
        rooted_path_def clean_stack_def render_path_def clean_elem_def)
  have b: "path_Base ''/var/log/audit.log.9223372036854775807'' = ''audit.log.9223372036854775807''"
    by (simp add: path_Base_def)
  have x: "expired example_processor example_now ''audit.log.9223372036854775807''"
    by (simp add: expired_def backup_suffix_def strings_HasPrefix_def example_processor_def
        is_decimal_int64_def is_digit_def decimal_value_def digit_val_def decimal_int_def
        time_Sub_def exact_diff_def time_sec_def unixToInternal_def time_of_Unix_def example_now_def
        maxDuration_def minDuration_def)
  have r: "remove_fault example_env ''/var/log/audit.log.9223372036854775807'' = None"
    by (simp add: example_env_def)
  have dir: "auditLogDir example_processor = ''/var/log''" by (simp add: example_processor_def)
  show ?thesis
    using expire_lookup [OF l, of "''/var/log/audit.log.9223372036854775807''"] l f r
    by (simp add: dir d b x)
qed

lemma job_sweeps:
  "snd (snd (expiration_loop p e schedule fs))
     = foldl (\<lambda>fs now. snd (snd (expireBackupLogFiles p e now fs))) fs (ticks schedule)"
proof (induction p e schedule fs rule: expiration_loop.induct)
  case (1 p e fs)
  then show ?case by (simp add: ticks_def)
next
  case (2 p e schedule fs)
  then show ?case by (simp add: ticks_def)
next
  case (3 p e now schedule fs)
  obtain res evs fs1 where eq: "expireBackupLogFiles p e now fs = (res, evs, fs1)"
    using prod_cases3 by blast
  note ih = 3 [OF eq [symmetric] refl refl]
  show ?case using ih by (cases "expiration_loop p e schedule fs1") (simp add: eq ticks_def)
qed

lemma job_result:
  "fst (expiration_loop p e schedule fs) = (if StopSignal \<in> set schedule then Returned else Waiting)"
proof (induction p e schedule fs rule: expiration_loop.induct)
  case (3 p e now schedule fs)
  obtain res evs fs1 where eq: "expireBackupLogFiles p e now fs = (res, evs, fs1)"
    using prod_cases3 by blast
  note ih = 3 [OF eq [symmetric] refl refl]
  show ?case using ih by (cases "expiration_loop p e schedule fs1") (simp add: eq)
qed simp_all

subsection \<open>The default handler\<close>




lemma unknown_valid: "utf8_ValidString ''unknown''"
  by simp













lemma path_Base_plain:
  assumes "p = [] \<or> (\<exists>c\<in>set p. c \<noteq> CHR ''/'')"
  shows "CHR ''/'' \<notin> set (path_Base p)"
proof (cases "p = []")
  case True
  then show ?thesis by (simp add: path_Base_def)
next
  case False
  define r where "r = takeWhile (\<lambda>c. c \<noteq> CHR ''/'') (dropWhile (\<lambda>c. c = CHR ''/'') (rev p))"
  have ns: "CHR ''/'' \<notin> set r"
    unfolding r_def by (auto dest: set_takeWhileD)
  obtain c where c: "c \<in> set (rev p)" "c \<noteq> CHR ''/''" using assms False by auto
  then have ne: "dropWhile (\<lambda>c. c = CHR ''/'') (rev p) \<noteq> []"
    by (auto simp: dropWhile_eq_Nil_conv)
  then obtain h t where ht: "dropWhile (\<lambda>c. c = CHR ''/'') (rev p) = h # t"
    by (cases "dropWhile (\<lambda>c. c = CHR ''/'') (rev p)") auto
  have "\<not> (hd (dropWhile (\<lambda>c. c = CHR ''/'') (rev p)) = CHR ''/'')"
    using ne by (rule hd_dropWhile)
  then have "h \<noteq> CHR ''/''" by (simp add: ht)
  then have "r \<noteq> []" by (simp add: r_def ht)
  then show ?thesis
    using False ns by (simp add: path_Base_def r_def [symmetric])
qed

lemma NewLogProcessor_base_name:
  assumes "AuditLogPath options = [] \<or> (\<exists>c\<in>set (AuditLogPath options). c \<noteq> CHR ''/'')"
  shows "CHR ''/'' \<notin> set (auditLogFile (NewLogProcessor e options))"
  using path_Base_plain [OF assms] by (simp add: NewLogProcessor_def)

lemma root_processor_fields:
  "auditLogDir root_processor = ''/''" "auditLogFile root_processor = ''/''"
  by (simp_all add: root_processor_def NewLogProcessor_def path_Dir_def path_Base_def
        path_Clean_def rooted_path_def clean_stack_def render_path_def clean_elem_def)

section \<open>Backup file names\<close>

text \<open>
  Claim C7 (as stated, it fails). For the log path \<^verbatim>\<open>/\<close> the base file name is \<^verbatim>\<open>/\<close>,
  the name generated for a time is \<^verbatim>\<open>/.1700000000\<close>, and its last element does not start
  with the base file name and a dot: the name is not recognised as a backup file.
\<close>

theorem root_backup_name_is_not_recognised:
  "auditLogFile root_processor = ''/'' \<and>
   generateNewBackupFilename root_processor example_now = ''/.1700000000'' \<and>
   \<not> isBackupFile root_processor (generateNewBackupFilename root_processor example_now)"
proof -
  have f: "strconv_FormatInt 1700000000 = ''1700000000''"
    by (simp add: strconv_FormatInt_def digits_of.simps digit_char_def)
  have g: "generateNewBackupFilename root_processor example_now = ''/.1700000000''"
    by (simp add: generateNewBackupFilename_def root_processor_fields example_now_def
          time_Unix_def f path_Join_def path_Clean_def rooted_path_def clean_stack_def
          render_path_def clean_elem_def)
  have "\<not> isBackupFile root_processor ''/.1700000000''"
    by (simp add: isBackupFile_def root_processor_fields path_Base_def strings_HasPrefix_def)
  then show ?thesis using g root_processor_fields(2) by simp
qed

text \<open>
  Claim C7, amended. Backup file names round-trip for every processor whose base file name
  has no slash, which \<^verbatim>\<open>NewLogProcessor\<close> gives for every log path but those made of slashes
  only. For such a processor and every time \<open>t\<close>: the name \<^verbatim>\<open>generateNewBackupFilename\<close>
  produces for \<open>t\<close> is a backup file for \<^verbatim>\<open>isBackupFile\<close>, and
  \<^verbatim>\<open>parseTimestampFromBackupFilename\<close> returns \<open>t\<close> cut to whole seconds from it. Conversely
  the parser fails on every name whose last element is the base file name, a dot and a
  suffix that is not a decimal integer of 64 bits.
\<close>

theorem backup_filename_roundtrip:
  assumes "CHR ''/'' \<notin> set (auditLogFile p)"
  shows "isBackupFile p (generateNewBackupFilename p t) \<and>
         parseTimestampFromBackupFilename p (generateNewBackupFilename p t)
           = Inr (t\<lparr>nanos := 0\<rparr>) \<and>
         (\<forall>name sfx. path_Base name = auditLogFile p @ ''.'' @ sfx \<and> \<not> is_decimal_int64 sfx
            \<longrightarrow> (\<exists>err. parseTimestampFromBackupFilename p name = Inl err))"
proof -
  let ?ts = "strconv_FormatInt (time_Unix t)"
  have sfx: "name_suffix (''.'' @ ?ts)"
    using FormatInt_suffix [of "time_Unix t"] by (simp add: name_suffix_def)
  have "plain_name (auditLogFile p @ ''.'' @ ?ts)"
    using sfx assms by (rule name_suffix_plain)
  then have base: "path_Base (generateNewBackupFilename p t) = (auditLogFile p @ ''.'') @ ?ts"
    by (simp add: generateNewBackupFilename_def path_Base_Join)
  have "- (2 ^ 63) \<le> time_Unix t" "time_Unix t < 2 ^ 63"
    using sint_range_size [of "unix_sec t"] by (simp_all add: time_Unix_def word_size)
  then have rt: "strconv_ParseInt ?ts = Inr (time_Unix t)" by (rule ParseInt_FormatInt)
  have trunc: "time_of_Unix (time_Unix t) = t\<lparr>nanos := 0\<rparr>"
    by (simp add: time_of_Unix_def time_Unix_def)
  have parse: "parseTimestampFromBackupFilename p (generateNewBackupFilename p t)
                 = Inr (t\<lparr>nanos := 0\<rparr>)"
    unfolding parseTimestampFromBackupFilename_def Let_def base TrimPrefix_append rt
    by (simp add: trunc)
  have hp: "strings_HasPrefix ((auditLogFile p @ ''.'') @ ?ts) (auditLogFile p @ ''.'')"
    by (rule HasPrefix_append)
  have isb: "isBackupFile p (generateNewBackupFilename p t)"
    unfolding isBackupFile_def Let_def parse base using hp by simp
  have conv: "\<exists>err. parseTimestampFromBackupFilename p name = Inl err"
    if nm: "path_Base name = auditLogFile p @ ''.'' @ sfx" and nd: "\<not> is_decimal_int64 sfx"
    for name sfx
  proof -
    have "strings_TrimPrefix (path_Base name) (auditLogFile p @ ''.'') = sfx"
      using nm TrimPrefix_append [of "auditLogFile p @ ''.''" sfx] by simp
    moreover obtain e where "strconv_ParseInt sfx = Inl e"
      using nd ParseInt_succeeds [of sfx] by (cases "strconv_ParseInt sfx") auto
    ultimately show ?thesis
      by (simp add: parseTimestampFromBackupFilename_def)
  qed
  show ?thesis using isb parse conv by blast
qed

theorem backup_filename_roundtrip_witness:
  "CHR ''/'' \<notin> set (auditLogFile example_processor) \<and>
   isBackupFile example_processor ''/var/log/audit.log.1700000000'' \<and>
   parseTimestampFromBackupFilename example_processor ''/var/log/audit.log.1700000000''
     = Inr \<lparr>unix_sec = 1700000000, nanos = 0\<rparr> \<and>
   (\<exists>err. parseTimestampFromBackupFilename example_processor ''/var/log/audit.log.17x'' = Inl err)"
proof -
  have h: "CHR ''/'' \<notin> set (auditLogFile example_processor)"
    by (simp add: example_processor_def)
  have b: "path_Base ''/var/log/audit.log.17x'' = auditLogFile example_processor @ ''.'' @ ''17x''"
    by (simp add: path_Base_def example_processor_def)
  have d: "\<not> is_decimal_int64 ''17x''"
    by (simp add: is_decimal_int64_def is_digit_def)
  show ?thesis
    using backup_filename_roundtrip [OF h, of "\<lparr>unix_sec = 1700000000, nanos = 5\<rparr>"]
      h example_backup_name b d
    by auto
qed

section \<open>Rotation\<close>

text \<open>
  Claim C1. Whenever \<^verbatim>\<open>rotateLogs\<close> succeeds, the path it returns is the directory of the
  live log joined with the base file name, a dot and the Unix seconds of the time of the
  rotation; the backup file at that path holds exactly the bytes the live file had (the
  live file is a regular file, and nothing writes to it between the start of the call and
  the copy); the live file is still there, with length 0; and every other file is as it
  was, so the backup is the one file the call creates.
\<close>

theorem rotate_success:
  assumes "rotateLogs p e now fs = (Inr name, fs')"
  shows "name = path_Join (auditLogDir p)
                  (auditLogFile p @ ''.'' @ strconv_FormatInt (time_Unix now)) \<and>
         (\<exists>bytes. fs_lookup fs (path_Join (auditLogDir p) (auditLogFile p)) = Some (Regular bytes) \<and>
                  fs_lookup fs' name = Some (Regular bytes)) \<and>
         fs_lookup fs' (path_Join (auditLogDir p) (auditLogFile p)) = Some (Regular []) \<and>
         (\<forall>q. q \<noteq> name \<and> q \<noteq> path_Join (auditLogDir p) (auditLogFile p)
               \<longrightarrow> fs_lookup fs' q = fs_lookup fs q)"
  using rotateLogs_effect [OF assms] unfolding generateNewBackupFilename_def Let_def by blast

theorem rotate_success_witness:
  "fst (rotateLogs example_processor example_env example_now example_fs)
     = Inr ''/var/log/audit.log.1700000000'' \<and>
   fs_lookup example_fs ''/var/log/audit.log'' = Some (Regular example_bytes) \<and>
   fs_lookup (snd (rotateLogs example_processor example_env example_now example_fs))
     ''/var/log/audit.log.1700000000'' = Some (Regular example_bytes) \<and>
   fs_lookup (snd (rotateLogs example_processor example_env example_now example_fs))
     ''/var/log/audit.log'' = Some (Regular []) \<and>
   fs_lookup (snd (rotateLogs example_processor example_env example_now example_fs))
     ''/var/log/syslog'' = Some (Regular ''other'')"
proof -
  have run: "rotateLogs example_processor example_env example_now example_fs
               = (Inr ''/var/log/audit.log.1700000000'',
                  snd (rotateLogs example_processor example_env example_now example_fs))"
    using example_rotation by (simp add: prod_eq_iff)
  have live: "fs_lookup example_fs ''/var/log/audit.log'' = Some (Regular example_bytes)"
    by (simp add: fs_lookup_def example_fs_def)
  have other: "fs_lookup example_fs ''/var/log/syslog'' = Some (Regular ''other'')"
    by (simp add: fs_lookup_def example_fs_def)
  show ?thesis
    using rotate_success [OF run, THEN conjunct2] live other example_rotation
    by (simp add: example_log_path)
qed

text \<open>
  Claim C2. In every run of \<^verbatim>\<open>rotateLogs\<close>, whatever fails: if the live file is not as it
  was before the call, then it has been truncated to length 0 and the backup file holds
  all the bytes it had, so the truncation comes after the complete copy. In particular,
  when opening the live file, creating the backup file or the copy fails, the call
  returns an error and the live file is what it was: not truncated, not deleted. (Writes
  of \<^verbatim>\<open>os.File\<close> are not buffered, so a copy that has returned has been handed to the
  operating system.)
\<close>

theorem rotate_truncates_after_copy:
  assumes "rotateLogs p e now fs = (r, fs')"
  shows "(fs_lookup fs' (path_Join (auditLogDir p) (auditLogFile p))
            \<noteq> fs_lookup fs (path_Join (auditLogDir p) (auditLogFile p))
          \<longrightarrow> (\<exists>bytes. fs_lookup fs (path_Join (auditLogDir p) (auditLogFile p)) = Some (Regular bytes) \<and>
                       fs_lookup fs' (generateNewBackupFilename p now) = Some (Regular bytes) \<and>
                       fs_lookup fs' (path_Join (auditLogDir p) (auditLogFile p)) = Some (Regular []))) \<and>
         ((\<exists>err. os_Open e fs (path_Join (auditLogDir p) (auditLogFile p)) = Inl err) \<or>
          (\<exists>err. fst (os_Create e fs (generateNewBackupFilename p now)) = Inl err) \<or>
          (\<exists>err. fst (io_Copy e (snd (os_Create e fs (generateNewBackupFilename p now)))
                         (generateNewBackupFilename p now)
                         (path_Join (auditLogDir p) (auditLogFile p))) = Inl err)
          \<longrightarrow> (\<exists>err. r = Inl err) \<and>
              fs_lookup fs' (path_Join (auditLogDir p) (auditLogFile p))
                = fs_lookup fs (path_Join (auditLogDir p) (auditLogFile p)))"
proof (cases r)
  case (Inl err)
  then show ?thesis using rotateLogs_Inl [of p e now fs err fs'] assms by simp
next
  case (Inr name)
  then have run: "rotateLogs p e now fs = (Inr name, fs')" using assms by simp
  let ?log = "path_Join (auditLogDir p) (auditLogFile p)"
  obtain fs1 fs2 n where
    op: "os_Open e fs ?log = Inr ?log" and
    cr: "os_Create e fs name = (Inr name, fs1)" and
    cp: "io_Copy e fs1 name ?log = (Inr n, fs2)" and
    nm: "name = generateNewBackupFilename p now"
    using rotateLogs_Inr [OF run] by blast
  have ok: "\<not> ((\<exists>err. os_Open e fs ?log = Inl err) \<or>
          (\<exists>err. fst (os_Create e fs name) = Inl err) \<or>
          (\<exists>err. fst (io_Copy e (snd (os_Create e fs name)) name ?log) = Inl err))"
    by (simp add: op cr cp)
  show ?thesis using rotateLogs_effect [OF run] ok nm by auto
qed

theorem rotate_truncates_after_copy_witness:
  "(\<exists>err. fst (rotateLogs example_processor full_disk_env example_now example_fs) = Inl err) \<and>
   fs_lookup (snd (rotateLogs example_processor full_disk_env example_now example_fs))
     ''/var/log/audit.log'' = Some (Regular example_bytes) \<and>
   fs_lookup (snd (rotateLogs example_processor example_env example_now example_fs))
     ''/var/log/audit.log'' = Some (Regular []) \<and>
   fs_lookup (snd (rotateLogs example_processor example_env example_now example_fs))
     ''/var/log/audit.log.1700000000'' = Some (Regular example_bytes)"
proof -
  let ?bad = "rotateLogs example_processor full_disk_env example_now example_fs"
  let ?good = "rotateLogs example_processor example_env example_now example_fs"
  have live: "fs_lookup example_fs ''/var/log/audit.log'' = Some (Regular example_bytes)"
    by (simp add: fs_lookup_def example_fs_def)
  have fails: "\<exists>err. fst (io_Copy full_disk_env
                   (snd (os_Create full_disk_env example_fs
                           (generateNewBackupFilename example_processor example_now)))
                   (generateNewBackupFilename example_processor example_now)
                   (path_Join (auditLogDir example_processor) (auditLogFile example_processor)))
                 = Inl err"
    by (simp add: example_log_path example_backup_name' os_Create_def io_Copy_def
          fs_lookup_def fs_store_def fs_delete_def example_fs_def example_env_def full_disk_env_def)
  have changed: "fs_lookup (snd ?good) ''/var/log/audit.log'' \<noteq> fs_lookup example_fs ''/var/log/audit.log''"
    by (simp add: rotateLogs_def Let_def example_log_path example_backup_name' os_Open_def os_Create_def
        io_Copy_def os_Truncate_def fs_lookup_def fs_store_def fs_delete_def example_fs_def
        example_env_def example_bytes_def)
  have a: "(\<exists>err. fst ?bad = Inl err) \<and>
           fs_lookup (snd ?bad) ''/var/log/audit.log'' = Some (Regular example_bytes)"
    using rotate_truncates_after_copy [of example_processor full_disk_env example_now example_fs
        "fst ?bad" "snd ?bad"] fails live
    by (simp add: example_log_path)
  have b: "fs_lookup (snd ?good) ''/var/log/audit.log'' = Some (Regular []) \<and>
           fs_lookup (snd ?good) ''/var/log/audit.log.1700000000'' = Some (Regular example_bytes)"
    using rotate_truncates_after_copy [of example_processor example_env example_now example_fs
        "fst ?good" "snd ?good"] changed live
    by (simp add: example_log_path example_backup_name')
  show ?thesis using a b by simp
qed

section \<open>Processing a backup file\<close>









section \<open>Expiration\<close>




text \<open>
  Claim C6 (as stated, it fails). With both settings left at zero the expiration job
  panics when it creates its ticker; with the retention alone left at zero and an
  interval of one hour, the first tick deletes a backup file written ten seconds before.
\<close>

theorem unset_expiration_counterexample:
  "ExpirationJobInterval zero_processor = 0 \<and> LogExpiration zero_processor = 0 \<and>
   fst (StartExpirationJob zero_processor example_env [Tick example_now, StopSignal] example_fs)
     = Panicked ''non-positive interval for NewTicker'' \<and>
   LogExpiration no_retention_processor = 0 \<and>
   fs_lookup example_fs ''/var/log/audit.log.1699999990'' = Some (Regular mixed_bytes) \<and>
   fs_lookup (snd (snd (StartExpirationJob no_retention_processor example_env
                          [Tick example_now, StopSignal] example_fs)))
     ''/var/log/audit.log.1699999990'' = None"
proof -
  have z: "ExpirationJobInterval zero_processor = 0" "LogExpiration zero_processor = 0"
    "LogExpiration no_retention_processor = 0"
    by (simp_all add: zero_processor_def no_retention_processor_def)
  have pn: "fst (StartExpirationJob zero_processor example_env [Tick example_now, StopSignal]
                   example_fs) = Panicked ''non-positive interval for NewTicker''"
    by (simp add: StartExpirationJob_def Let_def z)
  have r: "remove_fault example_env ''/var/log/audit.log.1699999990'' = None"
    by (simp add: example_env_def)
  have dir: "auditLogDir no_retention_processor = ''/var/log''"
    by (simp add: no_retention_processor_def example_processor_def)
  have ex: "expired no_retention_processor example_now ''audit.log.1699999990''"
    using example_stamped(2) by (simp add: expired_zero z)
  have "fs_lookup (snd (snd (expireBackupLogFiles no_retention_processor example_env example_now
                               example_fs))) ''/var/log/audit.log.1699999990'' = None"
    using expire_lookup [OF example_sweep_lists(3), of "''/var/log/audit.log.1699999990''"] r
    by (simp add: dir example_fs_lookup example_in_dir example_base ex)
  then show ?thesis
    using z pn by (simp add: example_job_sweeps example_fs_lookup)
qed

text \<open>
  Claim C6, amended. An interval that is zero or negative makes the expiration job panic
  when it starts, before any sweep, so it deletes nothing. With a positive interval the
  job sweeps once for every tick that arrives before the stop signal, in order, each
  sweep on the files the sweep before left. A retention of zero does not switch expiration
  off: a sweep with retention zero that can list the directory deletes exactly the
  regular files of the directory whose name is the base file name, a dot and a decimal
  integer of 64 bits, for which the exact time from the instant \<^verbatim>\<open>time.Unix\<close> makes of
  that integer to now is positive, and whose removal does not fail. That instant is
  \<open>2\<^sup>6\<^sup>4\<close> seconds before the Unix time for an integer above \<open>9223371974719179007\<close>, and
  the time from it to now is positive when it is before now for \<^verbatim>\<open>Time.Before\<close>
  (\<open>time_Sub_Before\<close>).
\<close>

theorem unset_expiration:
  "(ExpirationJobInterval p \<le> 0 \<longrightarrow>
      fst (StartExpirationJob p e schedule fs) = Panicked ''non-positive interval for NewTicker'' \<and>
      snd (snd (StartExpirationJob p e schedule fs)) = fs) \<and>
   (ExpirationJobInterval p > 0 \<longrightarrow>
      fst (StartExpirationJob p e schedule fs)
        = (if StopSignal \<in> set schedule then Returned else Waiting) \<and>
      snd (snd (StartExpirationJob p e schedule fs))
        = foldl (\<lambda>fs now. snd (snd (expireBackupLogFiles p e now fs))) fs (ticks schedule)) \<and>
   (LogExpiration p = 0 \<and> fst (expireBackupLogFiles p e now fs) = None \<longrightarrow>
      (\<forall>q. fs_lookup (snd (snd (expireBackupLogFiles p e now fs))) q
              = (if (\<exists>bytes. fs_lookup fs q = Some (Regular bytes)) \<and>
                    in_dir (auditLogDir p) q \<and> stamped_before p now (path_Base q) \<and>
                    remove_fault e q = None
                 then None else fs_lookup fs q)))"
proof -
  have a: "ExpirationJobInterval p \<le> 0 \<Longrightarrow>
      fst (StartExpirationJob p e schedule fs) = Panicked ''non-positive interval for NewTicker'' \<and>
      snd (snd (StartExpirationJob p e schedule fs)) = fs"
    by (simp add: StartExpirationJob_def Let_def)
  have b: "fst (StartExpirationJob p e schedule fs)
        = (if StopSignal \<in> set schedule then Returned else Waiting) \<and>
      snd (snd (StartExpirationJob p e schedule fs))
        = foldl (\<lambda>fs now. snd (snd (expireBackupLogFiles p e now fs))) fs (ticks schedule)"
    if "ExpirationJobInterval p > 0"
    using that job_sweeps [of p e schedule fs] job_result [of p e schedule fs]
    by (cases "expiration_loop p e schedule fs") (simp add: StartExpirationJob_def Let_def)
  have c: "fs_lookup (snd (snd (expireBackupLogFiles p e now fs))) q
              = (if (\<exists>bytes. fs_lookup fs q = Some (Regular bytes)) \<and>
                    in_dir (auditLogDir p) q \<and> stamped_before p now (path_Base q) \<and>
                    remove_fault e q = None
                 then None else fs_lookup fs q)"
    if "LogExpiration p = 0" "fst (expireBackupLogFiles p e now fs) = None" for q
    using expire_lookup [OF that(2), of q] expired_zero [OF that(1)] by simp
  show ?thesis using a b c by blast
qed

theorem unset_expiration_witness:
  "ExpirationJobInterval zero_processor \<le> 0 \<and>
   fst (StartExpirationJob zero_processor example_env [Tick example_now, StopSignal] example_fs)
     = Panicked ''non-positive interval for NewTicker'' \<and>
   snd (snd (StartExpirationJob zero_processor example_env [Tick example_now, StopSignal]
               example_fs)) = example_fs \<and>
   ExpirationJobInterval no_retention_processor > 0 \<and>
   LogExpiration no_retention_processor = 0 \<and>
   fst (expireBackupLogFiles no_retention_processor example_env example_now example_fs) = None \<and>
   fst (StartExpirationJob no_retention_processor example_env [Tick example_now, StopSignal]
          example_fs) = Returned \<and>
   fs_lookup (snd (snd (StartExpirationJob no_retention_processor example_env
                          [Tick example_now, StopSignal] example_fs)))
     ''/var/log/audit.log.1699999990'' = None \<and>
   fs_lookup (snd (snd (StartExpirationJob no_retention_processor example_env
                          [Tick example_now, StopSignal] example_fs)))
     ''/var/log/audit.log.old'' = Some (Regular ''kept'')"
proof -
  have z: "ExpirationJobInterval zero_processor \<le> 0"
    "ExpirationJobInterval no_retention_processor > 0"
    "LogExpiration no_retention_processor = 0"
    by (simp_all add: zero_processor_def no_retention_processor_def example_processor_def)
  have r: "remove_fault example_env q = None" for q
    by (simp add: example_env_def)
  have dir: "auditLogDir no_retention_processor = ''/var/log''"
    by (simp add: no_retention_processor_def example_processor_def)
  have nb: "\<not> stamped_before no_retention_processor example_now ''audit.log.old''"
    by (simp add: stamped_before_def backup_suffix_def strings_HasPrefix_def example_processor_def
          no_retention_processor_def is_decimal_int64_def is_digit_def)
  have tk: "ticks [Tick example_now, StopSignal] = [example_now]"
    by (simp add: ticks_def)
  note a = unset_expiration [of zero_processor example_env "[Tick example_now, StopSignal]"
      example_fs example_now, THEN conjunct1, rule_format, OF z(1)]
  note t = unset_expiration [of no_retention_processor example_env
      "[Tick example_now, StopSignal]" example_fs example_now]
  note b = t [THEN conjunct2, THEN conjunct1, rule_format, OF z(2), unfolded tk]
  note c = t [THEN conjunct2, THEN conjunct2, rule_format, OF conjI [OF z(3) example_sweep_lists(3)]]
  show ?thesis
    using a z example_sweep_lists(3) b [THEN conjunct1]
      c [of "''/var/log/audit.log.1699999990''"] c [of "''/var/log/audit.log.old''"]
    by (simp add: b [THEN conjunct2] dir r example_fs_lookup example_in_dir example_base
          example_stamped nb)
qed

section \<open>The default handler\<close>





end
